theory Spec2Isabelle
  imports Complex_Main "HOL-Library.Sublist"
begin

chapter \<open>The model\<close>

section \<open>Values shared by the harness and the predicate evaluator\<close>

text \<open>
  Python exceptions that the modelled functions can raise are values of \<open>py_error\<close>;
  a function that may raise returns \<open>py_error + 'a\<close> with \<open>Inl\<close> for the exception.
\<close>

datatype py_error = IndexError | ZeroDivisionError

text \<open>
  The values a YAML or JSON document holds (\<open>Any\<close> in the source's annotations):
  \<open>None\<close>, booleans, integers, strings, lists and dictionaries. A dictionary is an
  association list whose keys are pairwise distinct, as the keys of a Python \<open>dict\<close> are.
  Floating-point numbers are left out of the model.
\<close>

datatype json =
    JNull
  | JBool bool
  | JInt int
  | JStr string
  | JList "json list"
  | JDict "(string \<times> json) list"

subsection \<open>tdadlib/harness/trace.py\<close>

text \<open>
  \<open>ToolCall\<close> is a dataclass with the fields \<open>name\<close>, \<open>args\<close>, \<open>result\<close> and \<open>error\<close>;
  \<open>ToolTrace\<close> holds the list \<open>calls\<close>, and \<open>record\<close> appends one call to it.
\<close>

record ToolCall =
  name :: string
  args :: "(string \<times> json) list"
  result :: "(string \<times> json) list option"
  error :: "string option"

type_synonym ToolTrace = "ToolCall list"

definition record_call ::
  "ToolTrace \<Rightarrow> string \<Rightarrow> (string \<times> json) list \<Rightarrow> (string \<times> json) list option
     \<Rightarrow> string option \<Rightarrow> ToolTrace" where
  "record_call calls n a r e = calls @ [\<lparr>name = n, args = a, result = r, error = e\<rparr>]"

definition names :: "ToolTrace \<Rightarrow> string list" where
  "names calls = map name calls"

section \<open>tdadlib/mutationsmith/predicates.py\<close>

subsection \<open>Trace clauses\<close>

definition check_trace_called :: "ToolTrace \<Rightarrow> string list \<Rightarrow> bool" where
  "check_trace_called trace tool_names = (set tool_names \<subseteq> set (names trace))"

definition check_trace_not_called :: "ToolTrace \<Rightarrow> string list \<Rightarrow> bool" where
  "check_trace_not_called trace tool_names = (set (names trace) \<inter> set tool_names = {})"

text \<open>
  The loop of \<open>_check_trace_order_violation\<close> walks \<open>enumerate(names)\<close> and keeps the
  pair \<open>(a_idx, b_idx)\<close>; each index is set once, at the first position holding the name.
\<close>

fun order_idx_loop ::
  "string \<Rightarrow> string \<Rightarrow> (nat \<times> string) list \<Rightarrow> nat option \<times> nat option
     \<Rightarrow> nat option \<times> nat option" where
  "order_idx_loop a b [] st = st"
| "order_idx_loop a b ((i, n) # rest) (a_idx, b_idx) =
     order_idx_loop a b rest
       (if n = a \<and> a_idx = None then Some i else a_idx,
        if n = b \<and> b_idx = None then Some i else b_idx)"

definition check_trace_order_violation :: "ToolTrace \<Rightarrow> string list \<Rightarrow> bool" where
  "check_trace_order_violation trace must_not_happen =
     (case must_not_happen of
        [a, b] \<Rightarrow>
          (case order_idx_loop a b (enumerate 0 (names trace)) (None, None) of
             (Some a_idx, Some b_idx) \<Rightarrow> a_idx < b_idx
           | _ \<Rightarrow> False)
      | _ \<Rightarrow> False)"

text \<open>A trace that made the calls \<open>ns\<close>, in this order, with no arguments and no results.\<close>

definition trace_of :: "string list \<Rightarrow> ToolTrace" where
  "trace_of ns = map (\<lambda>n. \<lparr>name = n, args = [], result = None, error = None\<rparr>) ns"

subsection \<open>Text clauses\<close>

text \<open>
  Python's \<open>sub in text\<close> on strings holds when \<open>sub\<close> occurs in \<open>text\<close> as a contiguous
  run of characters, which is \<^const>\<open>sublist\<close>; the empty string occurs in every text.
\<close>

definition check_text_contains_any :: "string \<Rightarrow> string list \<Rightarrow> bool" where
  "check_text_contains_any text substrings = list_ex (\<lambda>sub. sublist sub text) substrings"

definition check_text_not_contains_any :: "string \<Rightarrow> string list \<Rightarrow> bool" where
  "check_text_not_contains_any text substrings =
     (\<not> list_ex (\<lambda>sub. sublist sub text) substrings)"

subsection \<open>JSON clauses\<close>

text \<open>
  Python's \<open>==\<close> on the values of a document: \<open>True == 1\<close> and \<open>False == 0\<close> hold, lists
  are equal elementwise, dictionaries are equal when they have the same keys with equal
  values, and values of different kinds are unequal otherwise.
\<close>

fun py_eq :: "json \<Rightarrow> json \<Rightarrow> bool" where
  "py_eq JNull JNull = True"
| "py_eq (JBool a) (JBool b) = (a = b)"
| "py_eq (JBool a) (JInt n) = ((if a then 1 else 0) = n)"
| "py_eq (JInt n) (JBool a) = (n = (if a then 1 else 0))"
| "py_eq (JInt m) (JInt n) = (m = n)"
| "py_eq (JStr s) (JStr t) = (s = t)"
| "py_eq (JList xs) (JList ys) = list_all2 py_eq xs ys"
| "py_eq (JDict xs) (JDict ys) =
     (length xs = length ys \<and>
      list_all (\<lambda>(k, v). list_ex (\<lambda>(k', w). k = k' \<and> py_eq v w) ys) xs)"
| "py_eq _ _ = False"

text \<open>\<open>str.split(sep)\<close> with a one-character separator: one more piece than separators.\<close>

fun split_on :: "char \<Rightarrow> string \<Rightarrow> string list" where
  "split_on sep [] = [] # []"
| "split_on sep (c # cs) =
     (if c = sep then [] # split_on sep cs
      else (case split_on sep cs of
              [] \<Rightarrow> [c] # []
            | piece # pieces \<Rightarrow> (c # piece) # pieces))"

text \<open>The loop of \<open>_get_json_field\<close> over the parts of the path; \<open>None\<close> is \<open>JNull\<close>.\<close>

fun get_json_field_loop :: "json \<Rightarrow> string list \<Rightarrow> json" where
  "get_json_field_loop current [] = current"
| "get_json_field_loop current (part # parts) =
     (case current of
        JDict kvs \<Rightarrow>
          (case map_of kvs part of
             Some v \<Rightarrow> get_json_field_loop v parts
           | None \<Rightarrow> JNull)
      | _ \<Rightarrow> JNull)"

definition get_json_field :: "(string \<times> json) list \<Rightarrow> string \<Rightarrow> json" where
  "get_json_field data path = get_json_field_loop (JDict data) (split_on (CHR ''.'') path)"

definition check_json_field_equals :: "(string \<times> json) list \<Rightarrow> string \<Rightarrow> json \<Rightarrow> bool" where
  "check_json_field_equals data field v = py_eq (get_json_field data field) v"

text \<open>\<open>actual in allowed\<close> on a list compares \<open>actual\<close> with each element by \<open>==\<close>.\<close>

definition check_json_field_in ::
  "(string \<times> json) list \<Rightarrow> string \<Rightarrow> json list \<Rightarrow> bool" where
  "check_json_field_in data field allowed =
     list_ex (\<lambda>x. py_eq (get_json_field data field) x) allowed"

subsection \<open>The predicate object\<close>

text \<open>
  \<open>expect_violation\<close> is a dictionary with the optional namespaces \<open>trace\<close>, \<open>text\<close> and
  \<open>json\<close>, each a dictionary again. A namespace is a record with one optional field for
  each key the evaluator reads (\<open>None\<close> when the key is absent) and the list of its other
  keys, whose values the evaluator never reads.
\<close>

record order_spec =
  must_not_happen :: "string list option"

record trace_spec =
  called :: "string list option"
  not_called :: "string list option"
  order_violation :: "order_spec option"
  trace_other_keys :: "string list"

record text_spec =
  contains_any :: "string list option"
  not_contains_any :: "string list option"
  text_other_keys :: "string list"

record field_equals_spec =
  fe_field :: "string option"
  fe_value :: "json option"

record field_in_spec =
  fi_field :: "string option"
  fi_allowed :: "json list option"

record json_spec =
  field_equals :: "field_equals_spec option"
  field_in :: "field_in_spec option"
  json_other_keys :: "string list"

record expect_violation =
  trace_ns :: "trace_spec option"
  text_ns :: "text_spec option"
  json_ns :: "json_spec option"

text \<open>The keys of a namespace, as \<open>dict.keys()\<close> gives them.\<close>

definition opt_key :: "string \<Rightarrow> 'a option \<Rightarrow> string list" where
  "opt_key k v = (case v of None \<Rightarrow> [] | Some _ \<Rightarrow> [k])"

definition trace_keys :: "trace_spec \<Rightarrow> string list" where
  "trace_keys ts =
     opt_key ''called'' (called ts) @ opt_key ''not_called'' (not_called ts) @
     opt_key ''order_violation'' (order_violation ts) @ trace_other_keys ts"

definition text_keys :: "text_spec \<Rightarrow> string list" where
  "text_keys ts =
     opt_key ''contains_any'' (contains_any ts) @
     opt_key ''not_contains_any'' (not_contains_any ts) @ text_other_keys ts"

definition json_keys :: "json_spec \<Rightarrow> string list" where
  "json_keys js =
     opt_key ''field_equals'' (field_equals js) @ opt_key ''field_in'' (field_in js) @
     json_other_keys js"

text \<open>\<open>expect_violation.get(ns, {})\<close>: an absent namespace is the empty dictionary.\<close>

definition get_trace_spec :: "expect_violation \<Rightarrow> trace_spec" where
  "get_trace_spec ev =
     (case trace_ns ev of
        None \<Rightarrow> \<lparr>called = None, not_called = None, order_violation = None,
                  trace_other_keys = []\<rparr>
      | Some ts \<Rightarrow> ts)"

definition get_text_spec :: "expect_violation \<Rightarrow> text_spec" where
  "get_text_spec ev =
     (case text_ns ev of
        None \<Rightarrow> \<lparr>contains_any = None, not_contains_any = None, text_other_keys = []\<rparr>
      | Some ts \<Rightarrow> ts)"

definition get_json_spec :: "expect_violation \<Rightarrow> json_spec" where
  "get_json_spec ev =
     (case json_ns ev of
        None \<Rightarrow> \<lparr>field_equals = None, field_in = None, json_other_keys = []\<rparr>
      | Some js \<Rightarrow> js)"

definition SUPPORTED_TRACE :: "string list" where
  "SUPPORTED_TRACE = [''called'', ''not_called'', ''order_violation'']"

definition SUPPORTED_TEXT :: "string list" where
  "SUPPORTED_TEXT = [''contains_any'', ''not_contains_any'']"

definition SUPPORTED_JSON :: "string list" where
  "SUPPORTED_JSON = [''field_equals'', ''field_in'']"

subsection \<open>Reasons\<close>

text \<open>
  Each reason string of the source is a constructor that carries the values the string
  is formatted from. Where the source formats \<open>list(s)\<close> of a set \<open>s\<close>, the constructor
  carries the elements once each; Python fixes no order for them.
\<close>

datatype reason =
    WarnUnsupportedTrace "string list"
  | TraceCalled "string list"
  | TraceCalledFailed "string list"
  | TraceNotCalled "string list"
  | TraceNotCalledFailed "string list"
  | TraceOrderViolation string string
  | TraceOrderViolationFailed string string
  | WarnUnsupportedText "string list"
  | TextContainsAny "string list"
  | TextContainsAnyFailed "string list"
  | TextNotContainsAny
  | TextNotContainsAnyFailed "string list"
  | WarnUnsupportedJson "string list"
  | JsonFieldEquals string json
  | JsonFieldEqualsFailed string json json
  | JsonFieldIn string json "json list"
  | JsonFieldInFailed string json "json list"
  | ErrorNoSupportedPredicates

text \<open>
  \<open>reason_text\<close> is \<open>"; ".join(reasons)\<close>, or the text \<open>no predicates specified\<close> when
  there is no reason.
\<close>

datatype reason_text = NoPredicatesSpecified | Joined "reason list"

record ev_state =
  reasons :: "reason list"
  all_passed :: bool
  predicates_checked :: nat

definition append_reason :: "reason \<Rightarrow> ev_state \<Rightarrow> ev_state" where
  "append_reason r st = st\<lparr>reasons := reasons st @ [r]\<rparr>"

definition count_predicate :: "ev_state \<Rightarrow> ev_state" where
  "count_predicate st = st\<lparr>predicates_checked := predicates_checked st + 1\<rparr>"

definition fail_predicate :: "ev_state \<Rightarrow> ev_state" where
  "fail_predicate st = st\<lparr>all_passed := False\<rparr>"

text \<open>\<open>set(spec.keys()) - SUPPORTED\<close>, and the warning when it is not empty.\<close>

definition unknown_keys :: "string list \<Rightarrow> string list \<Rightarrow> string list" where
  "unknown_keys keys supported = remdups (filter (\<lambda>k. k \<notin> set supported) keys)"

definition warn_unsupported ::
  "(string list \<Rightarrow> reason) \<Rightarrow> string list \<Rightarrow> ev_state \<Rightarrow> ev_state" where
  "warn_unsupported warning unknown st =
     (if unknown \<noteq> [] then append_reason (warning unknown) st else st)"

text \<open>\<open>pair[i]\<close> raises \<open>IndexError\<close> out of range.\<close>

definition py_index :: "'a list \<Rightarrow> nat \<Rightarrow> py_error + 'a" where
  "py_index xs i = (if i < length xs then Inr (xs ! i) else Inl IndexError)"

subsection \<open>evaluate_violation\<close>

text \<open>
  The body of \<open>evaluate_violation\<close> is a sequence of blocks, one for each supported key,
  that update \<open>reasons\<close>, \<open>all_passed\<close> and \<open>predicates_checked\<close>. Each block is a function
  from the state before it to the state after it.
\<close>

definition eval_called :: "string list option \<Rightarrow> ToolTrace \<Rightarrow> ev_state \<Rightarrow> ev_state" where
  "eval_called c trace st =
     (case c of
        None \<Rightarrow> st
      | Some required \<Rightarrow>
          (if check_trace_called trace required
           then append_reason (TraceCalled required) (count_predicate st)
           else append_reason
                  (TraceCalledFailed
                     (remdups (filter (\<lambda>n. n \<notin> set (names trace)) required)))
                  (fail_predicate (count_predicate st))))"

definition eval_not_called :: "string list option \<Rightarrow> ToolTrace \<Rightarrow> ev_state \<Rightarrow> ev_state" where
  "eval_not_called c trace st =
     (case c of
        None \<Rightarrow> st
      | Some forbidden \<Rightarrow>
          (if check_trace_not_called trace forbidden
           then append_reason (TraceNotCalled forbidden) (count_predicate st)
           else append_reason
                  (TraceNotCalledFailed
                     (remdups (filter (\<lambda>n. n \<in> set forbidden) (names trace))))
                  (fail_predicate (count_predicate st))))"

text \<open>
  The block of \<open>order_violation\<close> counts the predicate as soon as the key is present and
  checks the pair only when the entry has \<open>must_not_happen\<close>. Both reasons format
  \<open>pair[0]\<close> and \<open>pair[1]\<close>, which raises on a pair shorter than two.
\<close>

definition eval_order_violation ::
  "order_spec option \<Rightarrow> ToolTrace \<Rightarrow> ev_state \<Rightarrow> py_error + ev_state" where
  "eval_order_violation c trace st =
     (case c of
        None \<Rightarrow> Inr st
      | Some order_spec \<Rightarrow>
          (case must_not_happen order_spec of
             None \<Rightarrow> Inr (count_predicate st)
           | Some pair \<Rightarrow>
               (if check_trace_order_violation trace pair
                then (case py_index pair 0 of
                        Inl e \<Rightarrow> Inl e
                      | Inr p0 \<Rightarrow>
                          (case py_index pair 1 of
                             Inl e \<Rightarrow> Inl e
                           | Inr p1 \<Rightarrow>
                               Inr (append_reason (TraceOrderViolation p0 p1)
                                      (count_predicate st))))
                else (case py_index pair 0 of
                        Inl e \<Rightarrow> Inl e
                      | Inr p0 \<Rightarrow>
                          (case py_index pair 1 of
                             Inl e \<Rightarrow> Inl e
                           | Inr p1 \<Rightarrow>
                               Inr (append_reason (TraceOrderViolationFailed p0 p1)
                                      (fail_predicate (count_predicate st))))))))"

definition eval_contains_any :: "string list option \<Rightarrow> string \<Rightarrow> ev_state \<Rightarrow> ev_state" where
  "eval_contains_any c assistant_text st =
     (case c of
        None \<Rightarrow> st
      | Some substrings \<Rightarrow>
          (if check_text_contains_any assistant_text substrings
           then append_reason
                  (TextContainsAny (filter (\<lambda>s. sublist s assistant_text) substrings))
                  (count_predicate st)
           else append_reason (TextContainsAnyFailed substrings)
                  (fail_predicate (count_predicate st))))"

definition eval_not_contains_any ::
  "string list option \<Rightarrow> string \<Rightarrow> ev_state \<Rightarrow> ev_state" where
  "eval_not_contains_any c assistant_text st =
     (case c of
        None \<Rightarrow> st
      | Some substrings \<Rightarrow>
          (if check_text_not_contains_any assistant_text substrings
           then append_reason TextNotContainsAny (count_predicate st)
           else append_reason
                  (TextNotContainsAnyFailed
                     (filter (\<lambda>s. sublist s assistant_text) substrings))
                  (fail_predicate (count_predicate st))))"

text \<open>\<open>spec.get("field", "")\<close>, \<open>spec.get("value")\<close> and \<open>spec.get("allowed", [])\<close>.\<close>

definition get_or :: "'a \<Rightarrow> 'a option \<Rightarrow> 'a" where
  "get_or d v = (case v of None \<Rightarrow> d | Some x \<Rightarrow> x)"

definition eval_field_equals ::
  "field_equals_spec option \<Rightarrow> (string \<times> json) list \<Rightarrow> ev_state \<Rightarrow> ev_state" where
  "eval_field_equals c json_data st =
     (case c of
        None \<Rightarrow> st
      | Some spec \<Rightarrow>
          (let field = get_or [] (fe_field spec);
               v = get_or JNull (fe_value spec)
           in if check_json_field_equals json_data field v
              then append_reason (JsonFieldEquals field v) (count_predicate st)
              else append_reason
                     (JsonFieldEqualsFailed field (get_json_field json_data field) v)
                     (fail_predicate (count_predicate st))))"

definition eval_field_in ::
  "field_in_spec option \<Rightarrow> (string \<times> json) list \<Rightarrow> ev_state \<Rightarrow> ev_state" where
  "eval_field_in c json_data st =
     (case c of
        None \<Rightarrow> st
      | Some spec \<Rightarrow>
          (let field = get_or [] (fi_field spec);
               allowed = get_or [] (fi_allowed spec)
           in if check_json_field_in json_data field allowed
              then append_reason
                     (JsonFieldIn field (get_json_field json_data field) allowed)
                     (count_predicate st)
              else append_reason
                     (JsonFieldInFailed field (get_json_field json_data field) allowed)
                     (fail_predicate (count_predicate st))))"

text \<open>The three namespaces, in the order of the source.\<close>

definition eval_trace_ns :: "trace_spec \<Rightarrow> ToolTrace \<Rightarrow> ev_state \<Rightarrow> py_error + ev_state" where
  "eval_trace_ns ts trace st =
     eval_order_violation (order_violation ts) trace
       (eval_not_called (not_called ts) trace
          (eval_called (called ts) trace
             (warn_unsupported WarnUnsupportedTrace
                (unknown_keys (trace_keys ts) SUPPORTED_TRACE) st)))"

definition eval_text_ns :: "text_spec \<Rightarrow> string \<Rightarrow> ev_state \<Rightarrow> ev_state" where
  "eval_text_ns ts assistant_text st =
     eval_not_contains_any (not_contains_any ts) assistant_text
       (eval_contains_any (contains_any ts) assistant_text
          (warn_unsupported WarnUnsupportedText
             (unknown_keys (text_keys ts) SUPPORTED_TEXT) st))"

definition eval_json_ns :: "json_spec \<Rightarrow> (string \<times> json) list \<Rightarrow> ev_state \<Rightarrow> ev_state" where
  "eval_json_ns js json_data st =
     eval_field_in (field_in js) json_data
       (eval_field_equals (field_equals js) json_data
          (warn_unsupported WarnUnsupportedJson
             (unknown_keys (json_keys js) SUPPORTED_JSON) st))"

text \<open>\<open>assistant_json or {}\<close>: \<open>None\<close> and the empty dictionary both give \<open>{}\<close>.\<close>

definition json_or_empty :: "(string \<times> json) list option \<Rightarrow> (string \<times> json) list" where
  "json_or_empty assistant_json =
     (case assistant_json of None \<Rightarrow> [] | Some d \<Rightarrow> (if d = [] then [] else d))"

text \<open>The closing block: fail closed when nothing was checked, then join the reasons.\<close>

definition finish_evaluation :: "ev_state \<Rightarrow> bool \<times> reason_text" where
  "finish_evaluation st =
     (let st' = (if predicates_checked st = 0
                 then append_reason ErrorNoSupportedPredicates (fail_predicate st)
                 else st)
      in (all_passed st',
          if reasons st' \<noteq> [] then Joined (reasons st') else NoPredicatesSpecified))"

definition evaluate_violation ::
  "expect_violation \<Rightarrow> ToolTrace \<Rightarrow> string \<Rightarrow> (string \<times> json) list option
     \<Rightarrow> py_error + (bool \<times> reason_text)" where
  "evaluate_violation ev trace assistant_text assistant_json =
     (case eval_trace_ns (get_trace_spec ev) trace
             \<lparr>reasons = [], all_passed = True, predicates_checked = 0\<rparr> of
        Inl e \<Rightarrow> Inl e
      | Inr st1 \<Rightarrow>
          Inr (finish_evaluation
                 (eval_json_ns (get_json_spec ev) (json_or_empty assistant_json)
                    (eval_text_ns (get_text_spec ev) assistant_text st1))))"

text \<open>The first component of the result; a call that raises returns no result.\<close>

definition activated_of :: "py_error + (bool \<times> reason_text) \<Rightarrow> bool" where
  "activated_of r = (case r of Inl _ \<Rightarrow> False | Inr (activated, _) \<Rightarrow> activated)"

definition reasons_of :: "py_error + (bool \<times> reason_text) \<Rightarrow> reason list" where
  "reasons_of r =
     (case r of Inr (_, Joined rs) \<Rightarrow> rs | _ \<Rightarrow> [])"

subsection \<open>What the evaluator is to compute\<close>

text \<open>
  The number of supported keys a predicate holds, and the conjunction of its supported
  clauses on a trace, a text and a JSON response. A clause that is absent holds. An
  \<open>order_violation\<close> entry holds when it has a \<open>must_not_happen\<close> pair and the order
  check succeeds on this pair; an entry without a pair names no two calls that could
  have happened in the forbidden order, and does not hold.
\<close>

definition opt_count :: "'a option \<Rightarrow> nat" where
  "opt_count v = (case v of None \<Rightarrow> 0 | Some _ \<Rightarrow> 1)"

definition holds_if_present :: "('a \<Rightarrow> bool) \<Rightarrow> 'a option \<Rightarrow> bool" where
  "holds_if_present P v = (case v of None \<Rightarrow> True | Some x \<Rightarrow> P x)"

definition order_clause_holds :: "ToolTrace \<Rightarrow> order_spec \<Rightarrow> bool" where
  "order_clause_holds trace os =
     (case must_not_happen os of
        None \<Rightarrow> False
      | Some pair \<Rightarrow> check_trace_order_violation trace pair)"

text \<open>The \<open>order_violation\<close> entry of a predicate, when there is one, has its pair.\<close>

definition entry_has_pair :: "order_spec option \<Rightarrow> bool" where
  "entry_has_pair c = (case c of None \<Rightarrow> True | Some os \<Rightarrow> must_not_happen os \<noteq> None)"

definition order_entry_has_pair :: "expect_violation \<Rightarrow> bool" where
  "order_entry_has_pair ev = entry_has_pair (order_violation (get_trace_spec ev))"

definition field_equals_holds :: "(string \<times> json) list \<Rightarrow> field_equals_spec \<Rightarrow> bool" where
  "field_equals_holds json_data spec =
     check_json_field_equals json_data (get_or [] (fe_field spec))
       (get_or JNull (fe_value spec))"

definition field_in_holds :: "(string \<times> json) list \<Rightarrow> field_in_spec \<Rightarrow> bool" where
  "field_in_holds json_data spec =
     check_json_field_in json_data (get_or [] (fi_field spec)) (get_or [] (fi_allowed spec))"

definition supported_clause_count :: "expect_violation \<Rightarrow> nat" where
  "supported_clause_count ev =
     opt_count (called (get_trace_spec ev)) +
     opt_count (not_called (get_trace_spec ev)) +
     opt_count (order_violation (get_trace_spec ev)) +
     opt_count (contains_any (get_text_spec ev)) +
     opt_count (not_contains_any (get_text_spec ev)) +
     opt_count (field_equals (get_json_spec ev)) +
     opt_count (field_in (get_json_spec ev))"

definition supported_clauses_hold ::
  "expect_violation \<Rightarrow> ToolTrace \<Rightarrow> string \<Rightarrow> (string \<times> json) list \<Rightarrow> bool" where
  "supported_clauses_hold ev trace assistant_text json_data =
     (holds_if_present (check_trace_called trace) (called (get_trace_spec ev)) \<and>
      holds_if_present (check_trace_not_called trace) (not_called (get_trace_spec ev)) \<and>
      holds_if_present (order_clause_holds trace) (order_violation (get_trace_spec ev)) \<and>
      holds_if_present (check_text_contains_any assistant_text)
        (contains_any (get_text_spec ev)) \<and>
      holds_if_present (check_text_not_contains_any assistant_text)
        (not_contains_any (get_text_spec ev)) \<and>
      holds_if_present (field_equals_holds json_data) (field_equals (get_json_spec ev)) \<and>
      holds_if_present (field_in_holds json_data) (field_in (get_json_spec ev)))"

text \<open>The same predicate with the keys outside the supported sets replaced.\<close>

definition with_other_keys ::
  "string list \<Rightarrow> string list \<Rightarrow> string list \<Rightarrow> expect_violation \<Rightarrow> expect_violation" where
  "with_other_keys tk xk jk ev =
     \<lparr>trace_ns = Some ((get_trace_spec ev)\<lparr>trace_other_keys := tk\<rparr>),
      text_ns = Some ((get_text_spec ev)\<lparr>text_other_keys := xk\<rparr>),
      json_ns = Some ((get_json_spec ev)\<lparr>json_other_keys := jk\<rparr>)\<rparr>"

definition is_warning :: "reason \<Rightarrow> bool" where
  "is_warning r =
     (case r of
        WarnUnsupportedTrace _ \<Rightarrow> True
      | WarnUnsupportedText _ \<Rightarrow> True
      | WarnUnsupportedJson _ \<Rightarrow> True
      | _ \<Rightarrow> False)"

section \<open>scripts/run_mutation_testing.py\<close>

subsection \<open>Data\<close>

record MutantArtifacts =
  prompt :: string
  tool_descriptions :: "(string \<times> string) list"

record MutationResult =
  mutant_id :: string
  severity :: string
  category :: string
  intent :: string
  activated :: bool
  killed :: bool
  activation_attempts :: int
  test_output :: string

text \<open>
  An entry of \<open>mutations.yaml\<close>: \<open>id\<close> and \<open>intent\<close> are read with \<open>mutation[...]\<close>,
  \<open>severity\<close> and \<open>category\<close> with \<open>mutation.get(..., "unknown")\<close>. The generator
  configuration gives \<open>max_attempts\<close>, read with \<open>generator_config.get("max_attempts", 5)\<close>.
\<close>

record mutation =
  m_id :: string
  m_severity :: "string option"
  m_category :: "string option"
  m_intent :: string

record generator_config =
  max_attempts :: "int option"
  constraints :: "string list option"

subsection \<open>The world outside the engine\<close>

text \<open>
  The file system maps a path to the content of the file there. The engine's calls to
  its collaborators are recorded in a log, in the order they are made.
\<close>

type_synonym path = string
type_synonym files = "path \<Rightarrow> string option"

datatype event =
    Generate nat
  | Probe nat MutantArtifacts
  | WriteFile path string
  | RunTests string path path
  | Unlink path

record world =
  fs :: files
  log :: "event list"
  generate_calls :: nat

text \<open>
  The collaborators are parameters of the model. \<open>generate_mutant_result k\<close> is what the
  \<open>k\<close>-th call of \<open>generate_mutant\<close> returns, \<open>None\<close> when it raises; \<open>probe_activated k m\<close>
  is the \<open>activated\<close> field of the activation probe run on \<open>m\<close>, the artifacts of the
  \<open>k\<close>-th call, \<open>None\<close> when the probe raises; \<open>run_tests_result\<close> gives the exit code and the output
  of the test command on the files and the two override paths, \<open>None\<close> when the command
  cannot be started. The test command is taken to leave the files as they are.
  \<open>mktemp\<close> is the name \<open>tempfile.NamedTemporaryFile\<close> picks, and \<open>yaml_dump\<close> is
  \<open>yaml.dump\<close>.
\<close>

record collaborators =
  generate_mutant_result :: "nat \<Rightarrow> MutantArtifacts option"
  probe_activated :: "nat \<Rightarrow> MutantArtifacts \<Rightarrow> bool option"
  run_tests_result :: "files \<Rightarrow> path \<Rightarrow> path \<Rightarrow> (int \<times> string) option"
  mktemp :: "files \<Rightarrow> string \<Rightarrow> path"
  yaml_dump :: "(string \<times> string) list \<Rightarrow> string"

datatype run_error = TestCommandError

definition write_file :: "path \<Rightarrow> string \<Rightarrow> world \<Rightarrow> world" where
  "write_file p content w = w\<lparr>fs := (fs w)(p \<mapsto> content), log := log w @ [WriteFile p content]\<rparr>"

definition unlink :: "path \<Rightarrow> world \<Rightarrow> world" where
  "unlink p w = w\<lparr>fs := (fs w)(p := None), log := log w @ [Unlink p]\<rparr>"

definition save_prompt :: "path \<Rightarrow> string \<Rightarrow> world \<Rightarrow> world" where
  "save_prompt prompt_path content w = write_file prompt_path content w"

text \<open>\<open>str(n)\<close> of a natural number, and \<open>cache_dir / name\<close>.\<close>

definition digit_char :: "nat \<Rightarrow> char" where
  "digit_char d = char_of (of_char (CHR ''0'') + d)"

fun str_nat :: "nat \<Rightarrow> string" where
  "str_nat n = (if n < 10 then [digit_char n] else str_nat (n div 10) @ [digit_char (n mod 10)])"

declare str_nat.simps [simp del]

definition path_join :: "path \<Rightarrow> string \<Rightarrow> path" where
  "path_join dir file_name = dir @ ''/'' @ file_name"

definition cache_file :: "path \<Rightarrow> string \<Rightarrow> int \<Rightarrow> path" where
  "cache_file cache_dir mid attempts =
     path_join cache_dir (mid @ ''_attempt'' @ str_nat (nat attempts) @ ''.txt'')"

subsection \<open>run_mutation_test\<close>

text \<open>
  The local variables \<open>activated\<close>, \<open>attempts\<close> and \<open>mutant_artifacts\<close> of
  \<open>run_mutation_test\<close>, which the attempt loop updates.
\<close>

record attempt_state =
  st_activated :: bool
  st_attempts :: int
  st_mutant_artifacts :: "MutantArtifacts option"

text \<open>
  One call of \<open>generate_mutant\<close>: the call is logged with its number, and the result
  comes with that number.
\<close>

definition call_generate_mutant ::
  "collaborators \<Rightarrow> world \<Rightarrow> (nat \<times> MutantArtifacts) option \<times> world" where
  "call_generate_mutant c w =
     (map_option (\<lambda>m. (generate_calls w, m)) (generate_mutant_result c (generate_calls w)),
      w\<lparr>log := log w @ [Generate (generate_calls w)],
        generate_calls := generate_calls w + 1\<rparr>)"

text \<open>
  One activation probe inside its \<open>try\<close>: \<open>activated\<close> becomes the probe's answer, or
  \<open>False\<close> when the probe raises.
\<close>

definition call_activation_probe ::
  "collaborators \<Rightarrow> nat \<Rightarrow> MutantArtifacts \<Rightarrow> world \<Rightarrow> bool \<times> world" where
  "call_activation_probe c k m w =
     ((case probe_activated c k m of None \<Rightarrow> False | Some a \<Rightarrow> a),
      w\<lparr>log := log w @ [Probe k m]\<rparr>)"

definition cache_mutant :: "path option \<Rightarrow> string \<Rightarrow> int \<Rightarrow> MutantArtifacts \<Rightarrow> world \<Rightarrow> world" where
  "cache_mutant cache_dir mid attempts m w =
     (case cache_dir of
        None \<Rightarrow> w
      | Some d \<Rightarrow> save_prompt (cache_file d mid attempts) (prompt m) w)"

text \<open>
  The loop \<open>for attempt in range(max_attempts)\<close>, over the values of \<open>attempt\<close> still to
  come. A failed generation continues with the next attempt; an activated probe breaks.
\<close>

fun attempt_loop ::
  "collaborators \<Rightarrow> path option \<Rightarrow> string \<Rightarrow> int list \<Rightarrow> attempt_state \<Rightarrow> world
     \<Rightarrow> attempt_state \<times> world" where
  "attempt_loop c cache_dir mid [] st w = (st, w)"
| "attempt_loop c cache_dir mid (attempt # rest) st w =
     (case call_generate_mutant c w of
        (None, w1) \<Rightarrow>
          attempt_loop c cache_dir mid rest (st\<lparr>st_attempts := attempt + 1\<rparr>) w1
      | (Some (k, m), w1) \<Rightarrow>
          (case call_activation_probe c k m (cache_mutant cache_dir mid (attempt + 1) m w1) of
             (a, w2) \<Rightarrow>
               (if a
                then (st\<lparr>st_attempts := attempt + 1, st_mutant_artifacts := Some m,
                         st_activated := a\<rparr>, w2)
                else attempt_loop c cache_dir mid rest
                       (st\<lparr>st_attempts := attempt + 1, st_mutant_artifacts := Some m,
                           st_activated := a\<rparr>) w2)))"

text \<open>
  The rest of \<open>run_mutation_test\<close>. The function receives \<open>prompt_path\<close> and does not
  use it. A test command that cannot be started raises after the \<open>finally\<close> block has
  removed the two temporary files.
\<close>

definition run_mutation_test ::
  "collaborators \<Rightarrow> mutation \<Rightarrow> generator_config \<Rightarrow> path \<Rightarrow> string \<Rightarrow> path option \<Rightarrow> world
     \<Rightarrow> (run_error + MutationResult) \<times> world" where
  "run_mutation_test c mu gconf prompt_path test_cmd cache_dir w =
     (case attempt_loop c cache_dir (m_id mu) [0 .. get_or 5 (max_attempts gconf) - 1]
             \<lparr>st_activated = False, st_attempts = 0, st_mutant_artifacts = None\<rparr> w of
        (st, w1) \<Rightarrow>
          (case (st_activated st, st_mutant_artifacts st) of
             (True, Some m) \<Rightarrow>
               (let temp_prompt_path = mktemp c (fs w1) ''.txt'';
                    w2 = write_file temp_prompt_path (prompt m) w1;
                    temp_tool_desc_path = mktemp c (fs w2) ''.yaml'';
                    w3 = write_file temp_tool_desc_path (yaml_dump c (tool_descriptions m)) w2;
                    w4 = w3\<lparr>log := log w3 @
                                 [RunTests test_cmd temp_prompt_path temp_tool_desc_path]\<rparr>;
                    r = run_tests_result c (fs w4) temp_prompt_path temp_tool_desc_path;
                    w5 = unlink temp_tool_desc_path (unlink temp_prompt_path w4)
                in (case r of
                      None \<Rightarrow> (Inl TestCommandError, w5)
                    | Some (exit_code, out) \<Rightarrow>
                        (Inr \<lparr>mutant_id = m_id mu,
                              severity = get_or ''unknown'' (m_severity mu),
                              category = get_or ''unknown'' (m_category mu),
                              intent = m_intent mu,
                              activated = True,
                              killed = (exit_code \<noteq> 0),
                              activation_attempts = st_attempts st,
                              test_output = out\<rparr>, w5)))
           | _ \<Rightarrow>
               (Inr \<lparr>mutant_id = m_id mu,
                     severity = get_or ''unknown'' (m_severity mu),
                     category = get_or ''unknown'' (m_category mu),
                     intent = m_intent mu,
                     activated = False,
                     killed = False,
                     activation_attempts = st_attempts st,
                     test_output = []\<rparr>, w1)))"

subsection \<open>main: the loop over the mutations and the statistics\<close>

text \<open>\<open>for mutation in mutations: results.append(run_mutation_test(...))\<close>.\<close>

fun run_mutations ::
  "collaborators \<Rightarrow> generator_config \<Rightarrow> path \<Rightarrow> string \<Rightarrow> path option \<Rightarrow> mutation list
     \<Rightarrow> MutationResult list \<Rightarrow> world \<Rightarrow> (run_error + MutationResult list) \<times> world" where
  "run_mutations c gconf prompt_path test_cmd cache_dir [] results w = (Inr results, w)"
| "run_mutations c gconf prompt_path test_cmd cache_dir (mu # mus) results w =
     (case run_mutation_test c mu gconf prompt_path test_cmd cache_dir w of
        (Inl e, w') \<Rightarrow> (Inl e, w')
      | (Inr r, w') \<Rightarrow>
          run_mutations c gconf prompt_path test_cmd cache_dir mus (results @ [r]) w')"

definition activated_results :: "MutationResult list \<Rightarrow> MutationResult list" where
  "activated_results results = filter (\<lambda>r. activated r) results"

definition inconclusive_results :: "MutationResult list \<Rightarrow> MutationResult list" where
  "inconclusive_results results = filter (\<lambda>r. \<not> activated r) results"

definition killed_results :: "MutationResult list \<Rightarrow> MutationResult list" where
  "killed_results results = filter (\<lambda>r. killed r) (activated_results results)"

definition survived_results :: "MutationResult list \<Rightarrow> MutationResult list" where
  "survived_results results = filter (\<lambda>r. \<not> killed r) (activated_results results)"

definition activated_count :: "MutationResult list \<Rightarrow> int" where
  "activated_count results = int (length (activated_results results))"

definition killed_count :: "MutationResult list \<Rightarrow> int" where
  "killed_count results = int (length (killed_results results))"

text \<open>
  Python's \<open>a / b\<close> on integers raises \<open>ZeroDivisionError\<close> when \<open>b\<close> is zero. The quotient
  is a rational number here; the source rounds it to the nearest \<open>float\<close>.
\<close>

definition py_truediv :: "int \<Rightarrow> int \<Rightarrow> py_error + rat" where
  "py_truediv a b = (if b = 0 then Inl ZeroDivisionError else Inr (of_int a / of_int b))"

definition mutation_score :: "MutationResult list \<Rightarrow> py_error + rat" where
  "mutation_score results =
     (if activated_count results > 0
      then py_truediv (killed_count results) (activated_count results)
      else Inr 0)"

subsection \<open>Auxiliary notions for the statements\<close>

text \<open>The position of the first occurrence of a name, counted from \<open>k\<close>.\<close>

definition first_pos :: "nat \<Rightarrow> string \<Rightarrow> string list \<Rightarrow> nat option" where
  "first_pos k a ns =
     (if a \<in> set ns then Some (k + length (takeWhile (\<lambda>x. x \<noteq> a) ns)) else None)"

text \<open>Two evaluation states that agree on everything but the warnings among their reasons.\<close>

definition same_but_warnings :: "ev_state \<Rightarrow> ev_state \<Rightarrow> bool" where
  "same_but_warnings st st' =
     (all_passed st = all_passed st' \<and> predicates_checked st = predicates_checked st' \<and>
      filter (\<lambda>r. \<not> is_warning r) (reasons st) = filter (\<lambda>r. \<not> is_warning r) (reasons st'))"

text \<open>
  Three predicates for concrete runs: one holds only keys outside the supported sets, in
  all three namespaces; one holds an \<open>order_violation\<close> entry that has no
  \<open>must_not_happen\<close> pair, and nothing else; the last asks for a call of \<open>lookup\<close> and
  carries one key outside the supported sets.
\<close>

definition ev_unsupported_only :: expect_violation where
  "ev_unsupported_only =
     \<lparr>trace_ns = Some \<lparr>called = None, not_called = None, order_violation = None,
                        trace_other_keys = [''matches'']\<rparr>,
      text_ns = Some \<lparr>contains_any = None, not_contains_any = None,
                       text_other_keys = [''regex'']\<rparr>,
      json_ns = Some \<lparr>field_equals = None, field_in = None,
                       json_other_keys = [''field_gt'']\<rparr>\<rparr>"

definition ev_empty_order :: expect_violation where
  "ev_empty_order =
     \<lparr>trace_ns = Some \<lparr>called = None, not_called = None,
                        order_violation = Some \<lparr>must_not_happen = None\<rparr>,
                        trace_other_keys = []\<rparr>,
      text_ns = None,
      json_ns = None\<rparr>"

definition ev_called_lookup :: expect_violation where
  "ev_called_lookup =
     \<lparr>trace_ns = Some \<lparr>called = Some [''lookup''], not_called = None, order_violation = None,
                        trace_other_keys = [''matches'']\<rparr>,
      text_ns = None,
      json_ns = None\<rparr>"

text \<open>A result record for concrete runs of the statistics.\<close>

definition result_of :: "string \<Rightarrow> bool \<Rightarrow> bool \<Rightarrow> MutationResult" where
  "result_of mid a k =
     \<lparr>mutant_id = mid, severity = ''high'', category = ''ordering'', intent = ''skip a step'',
      activated = a, killed = k, activation_attempts = 1, test_output = []\<rparr>"

text \<open>
  What the attempt loop is to do, in terms of the collaborators' answers. The \<open>k\<close>-th call
  of the generator leads to an activation when it returns artifacts and the probe on them
  reports \<open>activated\<close>. The loop started at generator call \<open>g0\<close> with a budget of \<open>n\<close>
  makes \<open>attempts_made c g0 n\<close> attempts: up to and including the first one that
  activates, or all \<open>n\<close>. Attempt \<open>i\<close> (counted from 0) produces \<open>attempt_events\<close>: a new
  call of the generator, and then, when it returned artifacts, the cache write and the
  probe on these artifacts.
\<close>

definition activates :: "collaborators \<Rightarrow> nat \<Rightarrow> bool" where
  "activates c k =
     (case generate_mutant_result c k of
        None \<Rightarrow> False
      | Some m \<Rightarrow> probe_activated c k m = Some True)"

definition first_activating :: "collaborators \<Rightarrow> nat \<Rightarrow> nat \<Rightarrow> nat option" where
  "first_activating c g0 n = find (\<lambda>i. activates c (g0 + i)) [0..<n]"

definition attempts_made :: "collaborators \<Rightarrow> nat \<Rightarrow> nat \<Rightarrow> nat" where
  "attempts_made c g0 n = (case first_activating c g0 n of None \<Rightarrow> n | Some i \<Rightarrow> i + 1)"

definition attempt_events :: "collaborators \<Rightarrow> path option \<Rightarrow> string \<Rightarrow> nat \<Rightarrow> nat \<Rightarrow> event list" where
  "attempt_events c cache_dir mid g0 i =
     Generate (g0 + i) #
     (case generate_mutant_result c (g0 + i) of
        None \<Rightarrow> []
      | Some m \<Rightarrow>
          (case cache_dir of
             None \<Rightarrow> []
           | Some d \<Rightarrow> [WriteFile (cache_file d mid (int i + 1)) (prompt m)]) @
          [Probe (g0 + i) m])"

text \<open>
  The effect of a list of logged events on the files, the events of a run of attempts, the
  postcondition of the attempt loop, the events of the verification step, and the two
  shapes of a result.
\<close>

fun apply_event :: "event \<Rightarrow> files \<Rightarrow> files" where
  "apply_event (WriteFile p content) f = f(p \<mapsto> content)"
| "apply_event (Unlink p) f = f(p := None)"
| "apply_event _ f = f"

definition apply_events :: "event list \<Rightarrow> files \<Rightarrow> files" where
  "apply_events es f = fold apply_event es f"

definition attempts_log ::
  "collaborators \<Rightarrow> path option \<Rightarrow> string \<Rightarrow> nat \<Rightarrow> nat \<Rightarrow> nat \<Rightarrow> event list" where
  "attempts_log c cache_dir mid g0 j k = concat (map (attempt_events c cache_dir mid g0) [j..<k])"

definition loop_post ::
  "collaborators \<Rightarrow> path option \<Rightarrow> string \<Rightarrow> nat \<Rightarrow> nat \<Rightarrow> nat \<Rightarrow> attempt_state \<Rightarrow> world
     \<Rightarrow> attempt_state \<times> world \<Rightarrow> bool" where
  "loop_post c cache_dir mid g0 j n st w r =
     (case find (\<lambda>i. activates c (g0 + i)) [j..<n] of
        None \<Rightarrow>
          \<not> st_activated (fst r) \<and>
          st_attempts (fst r) = (if j < n then int n else st_attempts st) \<and>
          generate_calls (snd r) = g0 + n \<and>
          log (snd r) = log w @ attempts_log c cache_dir mid g0 j n \<and>
          fs (snd r) = apply_events (attempts_log c cache_dir mid g0 j n) (fs w)
      | Some i \<Rightarrow>
          st_activated (fst r) \<and>
          st_attempts (fst r) = int i + 1 \<and>
          st_mutant_artifacts (fst r) = generate_mutant_result c (g0 + i) \<and>
          generate_mutant_result c (g0 + i) \<noteq> None \<and>
          generate_calls (snd r) = g0 + i + 1 \<and>
          log (snd r) = log w @ attempts_log c cache_dir mid g0 j (Suc i) \<and>
          fs (snd r) = apply_events (attempts_log c cache_dir mid g0 j (Suc i)) (fs w))"

definition verification_events :: "collaborators \<Rightarrow> string \<Rightarrow> files \<Rightarrow> MutantArtifacts \<Rightarrow> event list" where
  "verification_events c test_cmd f m =
     (let t1 = mktemp c f ''.txt'';
          t2 = mktemp c (f(t1 \<mapsto> prompt m)) ''.yaml''
      in [WriteFile t1 (prompt m), WriteFile t2 (yaml_dump c (tool_descriptions m)),
          RunTests test_cmd t1 t2, Unlink t1, Unlink t2])"

definition inconclusive_result :: "mutation \<Rightarrow> int \<Rightarrow> MutationResult" where
  "inconclusive_result mu a =
     \<lparr>mutant_id = m_id mu, severity = get_or ''unknown'' (m_severity mu),
      category = get_or ''unknown'' (m_category mu), intent = m_intent mu,
      activated = False, killed = False, activation_attempts = a, test_output = []\<rparr>"

definition activated_result ::
  "mutation \<Rightarrow> int \<Rightarrow> int \<times> string \<Rightarrow> MutationResult" where
  "activated_result mu a r =
     \<lparr>mutant_id = m_id mu, severity = get_or ''unknown'' (m_severity mu),
      category = get_or ''unknown'' (m_category mu), intent = m_intent mu,
      activated = True, killed = (fst r \<noteq> 0), activation_attempts = a,
      test_output = snd r\<rparr>"

text \<open>
  Collaborators, a mutation and worlds for concrete runs. The generator fails on its
  second call; the probe rejects the first variant, and \<open>third_activates\<close> says whether
  it accepts the third; every later call raises. The test command reports one failure.
\<close>

definition demo_collaborators :: "bool \<Rightarrow> collaborators" where
  "demo_collaborators third_activates =
     \<lparr>generate_mutant_result =
        (\<lambda>k. if k = 1 then None
             else Some \<lparr>prompt = ''MUTANT PROMPT'', tool_descriptions = []\<rparr>),
      probe_activated =
        (\<lambda>k m. if k = 0 then Some False else if k = 2 then Some third_activates else None),
      run_tests_result = (\<lambda>f t1 t2. Some (1, ''1 failed'')),
      mktemp = (\<lambda>f suffix. ''/tmp/tmp'' @ suffix),
      yaml_dump = (\<lambda>d. ''{}'')\<rparr>"

definition demo_mutation :: mutation where
  "demo_mutation =
     \<lparr>m_id = ''m1'', m_severity = None, m_category = None, m_intent = ''skip the check''\<rparr>"

definition demo_config :: generator_config where
  "demo_config = \<lparr>max_attempts = None, constraints = None\<rparr>"

definition demo_world :: world where
  "demo_world =
     \<lparr>fs = Map.empty(''prompt.txt'' \<mapsto> ''ORIGINAL PROMPT''), log = [], generate_calls = 0\<rparr>"

text \<open>
  A run whose first attempt activates, with the mutant cache in the directory \<open>cache\<close>
  and the compiled prompt at \<open>cache/m1_attempt1.txt\<close>.
\<close>

definition alias_collaborators :: collaborators where
  "alias_collaborators =
     \<lparr>generate_mutant_result =
        (\<lambda>k. Some \<lparr>prompt = ''MUTANT PROMPT'', tool_descriptions = []\<rparr>),
      probe_activated = (\<lambda>k m. Some True),
      run_tests_result = (\<lambda>f t1 t2. Some (1, ''1 failed'')),
      mktemp = (\<lambda>f suffix. ''/tmp/tmp'' @ suffix),
      yaml_dump = (\<lambda>d. ''{}'')\<rparr>"

definition alias_world :: world where
  "alias_world =
     \<lparr>fs = Map.empty(''cache/m1_attempt1.txt'' \<mapsto> ''ORIGINAL PROMPT''), log = [],
      generate_calls = 0\<rparr>"

section \<open>Strings and regular expressions of the scripts\<close>

text \<open>
  The texts of the model are ASCII: a character is a code point below 128. On these,
  \<open>\s\<close> and \<open>str.strip()\<close> take the characters 9 to 13, 28 to 31 and 32 as white space,
  \<open>\d\<close> the digits, and \<open>\w\<close> the letters, the digits and the underscore.
\<close>

definition is_space :: "char \<Rightarrow> bool" where
  "is_space c =
     (let n = (of_char c :: nat) in (9 \<le> n \<and> n \<le> 13) \<or> (28 \<le> n \<and> n \<le> 32))"

definition is_digit :: "char \<Rightarrow> bool" where
  "is_digit c = (let n = (of_char c :: nat) in 48 \<le> n \<and> n \<le> 57)"

definition is_word :: "char \<Rightarrow> bool" where
  "is_word c =
     (let n = (of_char c :: nat)
      in (48 \<le> n \<and> n \<le> 57) \<or> (65 \<le> n \<and> n \<le> 90) \<or> (97 \<le> n \<and> n \<le> 122) \<or> n = 95)"

text \<open>\<open>str.strip()\<close>, \<open>str.startswith\<close>, \<open>"\n".join\<close>, \<open>str.replace\<close> and \<open>str.lower\<close>.\<close>

definition strip :: "string \<Rightarrow> string" where
  "strip s = rev (dropWhile is_space (rev (dropWhile is_space s)))"

definition startswith :: "string \<Rightarrow> string \<Rightarrow> bool" where
  "startswith s p = prefix p s"

fun join :: "string \<Rightarrow> string list \<Rightarrow> string" where
  "join sep [] = []"
| "join sep [x] = x"
| "join sep (x # y # ys) = x @ sep @ join sep (y # ys)"

text \<open>
  \<open>s.replace(old, new)\<close> for a non-empty \<open>old\<close>: the occurrences are replaced from left
  to right, and the search goes on after each occurrence.
\<close>

function replace :: "string \<Rightarrow> string \<Rightarrow> string \<Rightarrow> string" where
  "replace old new s =
     (if old = [] \<or> s = [] then s
      else if prefix old s then new @ replace old new (drop (length old) s)
      else hd s # replace old new (tl s))"
  by pat_completeness auto
termination
  by (relation "measure (\<lambda>(old, new, s). length s)") auto

declare replace.simps [simp del]

definition lower_char :: "char \<Rightarrow> char" where
  "lower_char c =
     (let n = (of_char c :: nat) in if 65 \<le> n \<and> n \<le> 90 then char_of (n + 32) else c)"

definition lower :: "string \<Rightarrow> string" where
  "lower s = map lower_char s"

text \<open>\<open>int(s)\<close> on a string of digits.\<close>

definition digit_value :: "char \<Rightarrow> int" where
  "digit_value c = int (of_char c) - 48"

definition int_of_digits :: "string \<Rightarrow> int" where
  "int_of_digits s = foldl (\<lambda>acc c. 10 * acc + digit_value c) 0 s"

subsection \<open>The fragment of \<open>re\<close> the scripts use\<close>

text \<open>
  A pattern is a sequence of items: a literal text, \<open>[class]+\<close> for a character class
  (greedy: it takes as many characters as it can and gives them back one at a time when
  the rest of the pattern fails), \<open>c?\<close> for one optional character, and the two ends
  of the one capturing group. \<open>re_match\<close> matches a pattern at the start of a text, in
  the order a backtracking matcher tries the alternatives, and returns the text from the
  start of the group, the text from the end of the group, and the text after the match.
\<close>

datatype re_item =
    Lit string
  | Plus "char \<Rightarrow> bool"
  | Opt char
  | GroupStart
  | GroupEnd

fun re_match ::
    "re_item list \<Rightarrow> string \<Rightarrow> string \<times> string \<Rightarrow> (string \<times> string \<times> string) option"
  and re_plus ::
    "(char \<Rightarrow> bool) \<Rightarrow> re_item list \<Rightarrow> string \<Rightarrow> string \<times> string
       \<Rightarrow> (string \<times> string \<times> string) option"
where
  "re_match [] s (gs, ge) = Some (gs, ge, s)"
| "re_match (Lit l # r) s g =
     (if prefix l s then re_match r (drop (length l) s) g else None)"
| "re_match (Plus P # r) [] g = None"
| "re_match (Plus P # r) (c # cs) g = (if P c then re_plus P r cs g else None)"
| "re_match (Opt x # r) [] g = re_match r [] g"
| "re_match (Opt x # r) (c # cs) g =
     (if c = x
      then (case re_match r cs g of Some m \<Rightarrow> Some m | None \<Rightarrow> re_match r (c # cs) g)
      else re_match r (c # cs) g)"
| "re_match (GroupStart # r) s (gs, ge) = re_match r s (s, ge)"
| "re_match (GroupEnd # r) s (gs, ge) = re_match r s (gs, s)"
| "re_plus P r [] g = re_match r [] g"
| "re_plus P r (c # cs) g =
     (if P c
      then (case re_plus P r cs g of Some m \<Rightarrow> Some m | None \<Rightarrow> re_match r (c # cs) g)
      else re_match r (c # cs) g)"

text \<open>The text of the group of a match: from the start of the group to its end.\<close>

definition group1 :: "string \<times> string \<times> string \<Rightarrow> string" where
  "group1 m = (case m of (gs, ge, rest) \<Rightarrow> take (length gs - length ge) gs)"

text \<open>\<open>re.search\<close>: the match at the leftmost position that has one.\<close>

fun re_search :: "re_item list \<Rightarrow> string \<Rightarrow> (string \<times> string \<times> string) option" where
  "re_search p [] = re_match p [] ([], [])"
| "re_search p (c # cs) =
     (case re_match p (c # cs) ([], []) of
        Some m \<Rightarrow> Some m
      | None \<Rightarrow> re_search p cs)"

text \<open>
  \<open>re.findall\<close> for a pattern with one group: the groups of the matches, from left to
  right, each search starting where the last match ended. A match that consumed nothing
  moves the search on by one character.
\<close>

function re_findall :: "re_item list \<Rightarrow> string \<Rightarrow> string list" where
  "re_findall p s =
     (case re_match p s ([], []) of
        Some (gs, ge, rest) \<Rightarrow>
          group1 (gs, ge, rest) #
          (if length rest < length s then re_findall p rest
           else if s = [] then [] else re_findall p (tl s))
      | None \<Rightarrow> (if s = [] then [] else re_findall p (tl s)))"
  by pat_completeness auto
termination
  by (relation "measure (\<lambda>(p, s). length s)") auto

declare re_findall.simps [simp del]

section \<open>scripts/compile_prompt.py: extract_failing_test_ids\<close>

text \<open>
  The pattern \<open>FAILED\s+([\w/\._:-]+::[\w_]+)\<close>: the group is a run of characters of a
  path or node id, then two colons, then a run of word characters.
\<close>

definition is_node_char :: "char \<Rightarrow> bool" where
  "is_node_char c =
     (is_word c \<or> c = CHR ''/'' \<or> c = CHR ''.'' \<or> c = CHR ''_'' \<or> c = CHR '':'' \<or> c = CHR ''-'')"

definition FAILED_PATTERN :: "re_item list" where
  "FAILED_PATTERN =
     [Lit ''FAILED'', Plus is_space, GroupStart, Plus is_node_char, Lit ''::'', Plus is_word,
      GroupEnd]"

text \<open>The loop that keeps the first occurrence of each match, with \<open>seen\<close> and \<open>unique\<close>.\<close>

fun unique_loop :: "string list \<Rightarrow> string set \<times> string list \<Rightarrow> string set \<times> string list" where
  "unique_loop [] st = st"
| "unique_loop (m # ms) (seen, unique) =
     unique_loop ms (if m \<notin> seen then (insert m seen, unique @ [m]) else (seen, unique))"

definition extract_failing_test_ids :: "string \<Rightarrow> string list" where
  "extract_failing_test_ids output =
     snd (unique_loop (re_findall FAILED_PATTERN output) ({}, []))"

section \<open>scripts/testsmith.py\<close>

subsection \<open>parse_pytest_summary\<close>

text \<open>
  The patterns \<open>(\d+)\s+passed\<close>, \<open>(\d+)\s+failed\<close> and \<open>(\d+)\s+errors?\<close>, and the
  test that picks the summary lines.
\<close>

definition count_pattern :: "string \<Rightarrow> re_item list" where
  "count_pattern word = [GroupStart, Plus is_digit, GroupEnd, Plus is_space, Lit word]"

definition errors_pattern :: "re_item list" where
  "errors_pattern = count_pattern ''error'' @ [Opt (CHR ''s'')]"

definition is_summary_line :: "string \<Rightarrow> bool" where
  "is_summary_line l = (sublist ''passed'' l \<or> sublist ''failed'' l \<or> sublist ''error'' l)"

definition matched_count :: "re_item list \<Rightarrow> string \<Rightarrow> int option" where
  "matched_count p summary = map_option (\<lambda>m. int_of_digits (group1 m)) (re_search p summary)"

definition parse_pytest_summary :: "string \<Rightarrow> int \<times> int" where
  "parse_pytest_summary output =
     (if output = [] then (0, 0)
      else
        (let lines = split_on (CHR 0x0A) (strip output);
             summary_lines = filter is_summary_line lines
         in if summary_lines = [] then (0, 0)
            else
              (let summary = last summary_lines;
                   passed = (case matched_count (count_pattern ''passed'') summary of
                               Some n \<Rightarrow> n | None \<Rightarrow> 0);
                   failed = (case matched_count (count_pattern ''failed'') summary of
                               Some n \<Rightarrow> n | None \<Rightarrow> 0);
                   failed' = (case matched_count errors_pattern summary of
                                Some n \<Rightarrow> failed + n | None \<Rightarrow> failed)
               in (passed, failed'))))"

text \<open>
  The report of scenario A, and the same report with a pytest node id in place of
  \<open>t1\<close>.
\<close>

definition report_A :: string where
  "report_A = ''FAILED t1\<newline>...\<newline>FAILED t1\<newline>1 failed, 2 passed''"

definition report_A_node_id :: string where
  "report_A_node_id =
     ''FAILED tests/test_a.py::t1\<newline>...\<newline>FAILED tests/test_a.py::t1\<newline>1 failed, 2 passed''"

subsection \<open>classify_test_failures\<close>

definition infra_patterns :: "string list" where
  "infra_patterns =
     [''AttributeError:'', ''NameError:'', ''ImportError:'', ''ModuleNotFoundError:'',
      ''TypeError:'', ''SyntaxError:'', ''IndentationError:'', ''fixture '' @ [CHR 0x27],
      ''F821'', ''E999'']"

text \<open>
  The test of a failure header, \<open>line.startswith("FAILED ") or "::test_" in line and
  "FAILED" in line\<close>, and the name the loop takes from it.
\<close>

definition is_failure_header :: "string \<Rightarrow> bool" where
  "is_failure_header line =
     (startswith line ''FAILED '' \<or> (sublist ''::test_'' line \<and> sublist ''FAILED'' line))"

definition header_test :: "string \<Rightarrow> string" where
  "header_test line = strip (replace ''FAILED '' [] line)"

record classify_state =
  current_test :: "string option"
  current_error_lines :: "string list"
  infrastructure_bugs :: "string list"
  expected_failures :: "string list"

text \<open>\<open>if current_test:\<close> holds for a string that is not empty.\<close>

definition truthy :: "string option \<Rightarrow> bool" where
  "truthy t = (case t of None \<Rightarrow> False | Some s \<Rightarrow> s \<noteq> [])"

text \<open>
  The block \<open>if current_test and current_error_lines: ...\<close>, which the source has once
  in the loop and once after it.
\<close>

definition process_test :: "classify_state \<Rightarrow> classify_state" where
  "process_test st =
     (case current_test st of
        None \<Rightarrow> st
      | Some t \<Rightarrow>
          (if t \<noteq> [] \<and> current_error_lines st \<noteq> []
           then (let error_text = join [CHR 0x0A] (current_error_lines st)
                 in if list_ex (\<lambda>p. sublist p error_text) infra_patterns
                    then st\<lparr>infrastructure_bugs :=
                             infrastructure_bugs st @ [t @ '':'' @ [CHR 0x0A] @ error_text]\<rparr>
                    else st\<lparr>expected_failures := expected_failures st @ [t]\<rparr>)
           else st))"

fun classify_loop :: "string list \<Rightarrow> classify_state \<Rightarrow> classify_state" where
  "classify_loop [] st = st"
| "classify_loop (line # lines) st =
     classify_loop lines
       (if is_failure_header line
        then (process_test st)\<lparr>current_test := Some (header_test line),
                                 current_error_lines := []\<rparr>
        else if truthy (current_test st)
        then st\<lparr>current_error_lines := current_error_lines st @ [line]\<rparr>
        else st)"

definition classify_test_failures :: "string \<Rightarrow> string list \<times> string list" where
  "classify_test_failures pytest_output =
     (let st = process_test
                 (classify_loop (split_on (CHR 0x0A) pytest_output)
                    \<lparr>current_test = None, current_error_lines = [],
                     infrastructure_bugs = [], expected_failures = []\<rparr>)
      in (infrastructure_bugs st, expected_failures st))"

text \<open>
  The failure blocks of a report: each header line with the lines that follow it up to
  the next header. A block is reported when its test name is not empty and it has at
  least one line; it is an infrastructure defect when its error text holds one of the
  signatures.
\<close>

fun failure_blocks :: "string list \<Rightarrow> (string \<times> string list) list" where
  "failure_blocks [] = []"
| "failure_blocks (line # lines) =
     (if is_failure_header line
      then (header_test line, takeWhile (\<lambda>l. \<not> is_failure_header l) lines) #
           failure_blocks lines
      else failure_blocks lines)"

definition reported_blocks :: "string \<Rightarrow> (string \<times> string list) list" where
  "reported_blocks pytest_output =
     filter (\<lambda>(t, ls). t \<noteq> [] \<and> ls \<noteq> []) (failure_blocks (split_on (CHR 0x0A) pytest_output))"

definition error_text_of :: "string \<times> string list \<Rightarrow> string" where
  "error_text_of b = join [CHR 0x0A] (snd b)"

definition is_infrastructure_defect :: "string \<times> string list \<Rightarrow> bool" where
  "is_infrastructure_defect b = list_ex (\<lambda>p. sublist p (error_text_of b)) infra_patterns"

definition describe_bug :: "string \<times> string list \<Rightarrow> string" where
  "describe_bug b = fst b @ '':'' @ [CHR 0x0A] @ error_text_of b"

text \<open>A report whose summary lists two failures on consecutive lines.\<close>

definition report_two_failures :: string where
  "report_two_failures =
     ''FAILED tests/test_a.py::test_x - NameError: name\<newline>FAILED tests/test_a.py::test_y - assert 0\<newline>''"

text \<open>
  The two buckets of a list of blocks, the reported ones among some blocks, the blocks
  that are still to come when the loop is in a state with some lines ahead, and a report
  with one failure whose error text holds a signature.
\<close>

definition buckets :: "(string \<times> string list) list \<Rightarrow> string list \<times> string list" where
  "buckets bs =
     (map describe_bug (filter is_infrastructure_defect bs),
      map fst (filter (\<lambda>b. \<not> is_infrastructure_defect b) bs))"

definition reported :: "(string \<times> string list) list \<Rightarrow> (string \<times> string list) list" where
  "reported bs = filter (\<lambda>(t, ls). t \<noteq> [] \<and> ls \<noteq> []) bs"

definition pending_blocks :: "classify_state \<Rightarrow> string list \<Rightarrow> (string \<times> string list) list" where
  "pending_blocks st lines =
     (if truthy (current_test st)
      then [(the (current_test st),
             current_error_lines st @ takeWhile (\<lambda>l. \<not> is_failure_header l) lines)]
      else []) @ failure_blocks lines"

definition report_name_error :: string where
  "report_name_error =
     ''FAILED tests/test_a.py::test_x\<newline>E   NameError: name q is not defined\<newline>''"

section \<open>scripts/compile_prompt.py: the convergence loop\<close>

subsection \<open>The world of a compile session\<close>

text \<open>
  A session runs test commands and sends messages to the repair agent. The log records
  these calls, the file operations on the candidate prompt, and the banner each
  iteration of the outer and of the inner loop prints first. \<open>run_cmd\<close> is a parameter:
  the exit code and the output of the \<open>k\<close>-th test command of the session, given the
  command and the value of \<open>TDAD_PROMPT_OVERRIDE_PATH\<close>. What the agent does to the
  prompt files shows in the answers of later test commands only. The times and the
  costs that the session adds up are left out.
\<close>

datatype agent_message =
    OuterMessage int int string
  | InnerMessage int int "string list" string

datatype cevent =
    OuterIteration int
  | InnerIteration int
  | RunCmd string "path option"
  | Query agent_message
  | CopyFile path path
  | UnlinkFile path

record cworld =
  clog :: "cevent list"
  runs :: nat

type_synonym run_cmd = "nat \<Rightarrow> string \<Rightarrow> path option \<Rightarrow> int \<times> string"

definition call_run_cmd :: "run_cmd \<Rightarrow> string \<Rightarrow> path option \<Rightarrow> cworld \<Rightarrow> (int \<times> string) \<times> cworld" where
  "call_run_cmd rc cmd env w =
     (rc (runs w) cmd env, w\<lparr>clog := clog w @ [RunCmd cmd env], runs := runs w + 1\<rparr>)"

definition emit :: "cevent \<Rightarrow> cworld \<Rightarrow> cworld" where
  "emit e w = w\<lparr>clog := clog w @ [e]\<rparr>"

subsection \<open>extract_pytest_failures\<close>

text \<open>
  The nested function of \<open>compile_loop\<close>: the state of its loop is \<open>result_lines\<close>,
  \<open>in_failures\<close> and \<open>in_summary\<close>. The nested function of \<open>focused_inner_loop\<close> is the
  same without \<open>in_summary\<close> and its branch.
\<close>

definition is_failures_banner :: "string \<Rightarrow> bool" where
  "is_failures_banner line =
     (sublist ''= FAILURES ='' line \<or> sublist ''=FAILURES='' (replace '' '' [] line))"

definition is_summary_text :: "string \<Rightarrow> bool" where
  "is_summary_text line =
     (sublist ''short test summary'' (lower line) \<or> sublist ''passed'' line \<or>
      sublist ''failed'' line \<or> sublist ''error'' line)"

fun failures_step :: "string \<Rightarrow> string list \<times> bool \<Rightarrow> string list \<times> bool" where
  "failures_step line (result_lines, in_failures) =
     (if is_failures_banner line then (result_lines @ [line], True)
      else if in_failures
      then (if startswith line ''='' \<and> \<not> sublist ''FAILURES'' line
            then (result_lines, False)
            else (result_lines @ [line], in_failures))
      else (result_lines, in_failures))"

fun outer_extract_loop ::
  "string list \<Rightarrow> string list \<times> bool \<times> bool \<Rightarrow> string list \<times> bool \<times> bool" where
  "outer_extract_loop [] st = st"
| "outer_extract_loop (line # lines) (result_lines, in_failures, in_summary) =
     (case failures_step line (result_lines, in_failures) of
        (result_lines1, in_failures1) \<Rightarrow>
          outer_extract_loop lines
            (if is_summary_text line
             then (if \<not> in_failures1 then (result_lines1 @ [line], in_failures1, True)
                   else (result_lines1, in_failures1, in_summary))
             else if in_summary \<and> strip line \<noteq> [] \<and> \<not> startswith line ''=''
             then (result_lines1 @ [line], in_failures1, in_summary)
             else (result_lines1, in_failures1, in_summary)))"

definition extract_pytest_failures :: "string \<Rightarrow> string" where
  "extract_pytest_failures output =
     (let extracted = join [CHR 0x0A]
            (fst (outer_extract_loop (split_on (CHR 0x0A) output) ([], False, False)))
      in if strip extracted \<noteq> [] then extracted else output)"

fun inner_extract_loop :: "string list \<Rightarrow> string list \<times> bool \<Rightarrow> string list \<times> bool" where
  "inner_extract_loop [] st = st"
| "inner_extract_loop (line # lines) (result_lines, in_failures) =
     (case failures_step line (result_lines, in_failures) of
        (result_lines1, in_failures1) \<Rightarrow>
          inner_extract_loop lines
            (if is_summary_text line \<and> \<not> in_failures1
             then (result_lines1 @ [line], in_failures1)
             else (result_lines1, in_failures1)))"

definition inner_extract_pytest_failures :: "string \<Rightarrow> string" where
  "inner_extract_pytest_failures output =
     (let extracted = join [CHR 0x0A]
            (fst (inner_extract_loop (split_on (CHR 0x0A) output) ([], False)))
      in if strip extracted \<noteq> [] then extracted else output)"

subsection \<open>focused_inner_loop\<close>

text \<open>
  \<open>prompt_path.with_name(name)\<close> replaces the last component of the path, and the
  targeted command lists the failing tests.
\<close>

definition with_name :: "path \<Rightarrow> string \<Rightarrow> path" where
  "with_name p n = rev (dropWhile (\<lambda>c. c \<noteq> CHR ''/'') (rev p)) @ n"

definition targeted_cmd :: "string list \<Rightarrow> string" where
  "targeted_cmd failing_tests = ''pytest '' @ join '' '' failing_tests @ '' -n auto -v --tb=short''"

text \<open>
  The progress check of one inner iteration: with a non-empty output, the tests that
  still fail are read from it, and when some original test is no longer among them, the
  targeted tests become the original ones that still fail. Python fixes no order for
  \<open>list(still_failing & original_failing)\<close>; the model takes the order of the output.
\<close>

definition narrow_targets :: "string list \<Rightarrow> string list \<Rightarrow> string \<Rightarrow> string list" where
  "narrow_targets original_failing failing_tests out =
     (if out \<noteq> []
      then (let still_failing = extract_failing_test_ids out
            in if list_ex (\<lambda>t. t \<notin> set still_failing) original_failing
               then filter (\<lambda>t. t \<in> set original_failing) still_failing
               else failing_tests)
      else failing_tests)"

definition inner_test_details :: "string \<Rightarrow> string" where
  "inner_test_details out = (if out \<noteq> [] then inner_extract_pytest_failures out else [])"

text \<open>
  The loop \<open>for i in range(1, max_inner_iters + 1)\<close> over the values of \<open>i\<close> still to
  come, with the variables \<open>failing_tests\<close> and \<open>first_iteration\<close>. It returns \<open>True\<close>
  after promoting the candidate, and \<open>False\<close> when the values are used up or the last
  iteration breaks.
\<close>

fun inner_loop ::
  "run_cmd \<Rightarrow> path \<Rightarrow> path \<Rightarrow> string list \<Rightarrow> string \<Rightarrow> int \<Rightarrow> int list
     \<Rightarrow> string list \<times> bool \<Rightarrow> cworld \<Rightarrow> bool \<times> cworld" where
  "inner_loop rc prompt_path candidate_path original_failing outer_loop_output max_inner_iters
     [] st w = (False, emit (UnlinkFile candidate_path) w)"
| "inner_loop rc prompt_path candidate_path original_failing outer_loop_output max_inner_iters
     (i # rest) (failing_tests, first_iteration) w =
     (case (if first_iteration then ((1, outer_loop_output), emit (InnerIteration i) w)
            else call_run_cmd rc (targeted_cmd failing_tests) (Some candidate_path)
                   (emit (InnerIteration i) w)) of
        ((code, out), w1) \<Rightarrow>
          (if code = 0
           then (True, emit (UnlinkFile candidate_path)
                         (emit (CopyFile candidate_path prompt_path) w1))
           else
             (let failing_tests1 = narrow_targets original_failing failing_tests out
              in if i = max_inner_iters
                 then (False, emit (UnlinkFile candidate_path) w1)
                 else inner_loop rc prompt_path candidate_path original_failing
                        outer_loop_output max_inner_iters rest (failing_tests1, False)
                        (emit (Query (InnerMessage i max_inner_iters failing_tests1
                                        (inner_test_details out))) w1))))"

definition focused_inner_loop ::
  "run_cmd \<Rightarrow> path \<Rightarrow> string list \<Rightarrow> string \<Rightarrow> int \<Rightarrow> cworld \<Rightarrow> bool \<times> cworld" where
  "focused_inner_loop rc prompt_path failing_tests outer_loop_output max_inner_iters w =
     (let candidate_path = with_name prompt_path ''system_prompt_candidate.txt''
      in inner_loop rc prompt_path candidate_path failing_tests outer_loop_output
           max_inner_iters [1 .. max_inner_iters] (failing_tests, True)
           (emit (CopyFile prompt_path candidate_path) w))"

subsection \<open>compile_loop\<close>

text \<open>
  The body of one outer iteration ends the session with an exit code or goes on to the
  next iteration. On the first iteration the initial results, when given and not empty,
  stand for a failed test run.
\<close>

datatype step_result = Return int | NextIteration

definition outer_iteration ::
  "run_cmd \<Rightarrow> path \<Rightarrow> string \<Rightarrow> int \<Rightarrow> int \<Rightarrow> int \<Rightarrow> string option \<Rightarrow> int \<Rightarrow> cworld
     \<Rightarrow> step_result \<times> cworld" where
  "outer_iteration rc prompt_path test_cmd max_iters inner_loop_threshold max_inner_iters
     initial_results_content i w =
     (case (if i = 1 \<and> initial_results_content \<noteq> None \<and> initial_results_content \<noteq> Some []
            then ((1, the initial_results_content), emit (OuterIteration i) w)
            else call_run_cmd rc test_cmd None (emit (OuterIteration i) w)) of
        ((code, out), w1) \<Rightarrow>
          (if code = 0 then (Return 0, w1)
           else
             (let failing_tests = extract_failing_test_ids out
              in if 0 < length failing_tests \<and> int (length failing_tests) < inner_loop_threshold
                 then (case focused_inner_loop rc prompt_path failing_tests out
                              max_inner_iters w1 of
                         (success, w2) \<Rightarrow>
                           (if \<not> success then (Return 2, w2) else (NextIteration, w2)))
                 else (NextIteration,
                       emit (Query (OuterMessage i max_iters (extract_pytest_failures out)))
                         w1))))"

fun outer_loop ::
  "run_cmd \<Rightarrow> path \<Rightarrow> string \<Rightarrow> int \<Rightarrow> int \<Rightarrow> int \<Rightarrow> string option \<Rightarrow> int list \<Rightarrow> cworld
     \<Rightarrow> int \<times> cworld" where
  "outer_loop rc prompt_path test_cmd max_iters inner_loop_threshold max_inner_iters
     initial_results_content [] w = (2, w)"
| "outer_loop rc prompt_path test_cmd max_iters inner_loop_threshold max_inner_iters
     initial_results_content (i # rest) w =
     (case outer_iteration rc prompt_path test_cmd max_iters inner_loop_threshold
             max_inner_iters initial_results_content i w of
        (Return code, w1) \<Rightarrow> (code, w1)
      | (NextIteration, w1) \<Rightarrow>
          outer_loop rc prompt_path test_cmd max_iters inner_loop_threshold max_inner_iters
            initial_results_content rest w1)"

datatype compile_error = FileNotFoundError

definition compile_loop ::
  "run_cmd \<Rightarrow> bool \<Rightarrow> path \<Rightarrow> string \<Rightarrow> int \<Rightarrow> int \<Rightarrow> int \<Rightarrow> string option \<Rightarrow> cworld
     \<Rightarrow> (compile_error + int) \<times> cworld" where
  "compile_loop rc prompt_exists prompt_path test_cmd max_iters inner_loop_threshold
     max_inner_iters initial_results_content w =
     (if \<not> prompt_exists then (Inl FileNotFoundError, w)
      else (case outer_loop rc prompt_path test_cmd max_iters inner_loop_threshold
                   max_inner_iters initial_results_content [1 .. max_iters] w of
              (code, w1) \<Rightarrow> (Inr code, w1)))"

text \<open>Kinds of events of a compile session, for counting them in a log.\<close>

definition is_outer_iteration :: "cevent \<Rightarrow> bool" where
  "is_outer_iteration e = (case e of OuterIteration _ \<Rightarrow> True | _ \<Rightarrow> False)"

definition is_inner_iteration :: "cevent \<Rightarrow> bool" where
  "is_inner_iteration e = (case e of InnerIteration _ \<Rightarrow> True | _ \<Rightarrow> False)"

definition is_run_cmd :: "cevent \<Rightarrow> bool" where
  "is_run_cmd e = (case e of RunCmd _ _ \<Rightarrow> True | _ \<Rightarrow> False)"


definition count_events :: "(cevent \<Rightarrow> bool) \<Rightarrow> cevent list \<Rightarrow> nat" where
  "count_events P es = length (filter P es)"

text \<open>
  What a loop of the session may add to the log within a budget: at most \<open>n_outer\<close>
  outer iterations, \<open>n_inner\<close> inner iterations, \<open>n_cmds\<close> test commands and
  \<open>n_events\<close> events.
\<close>

definition within_budget :: "nat \<Rightarrow> nat \<Rightarrow> nat \<Rightarrow> nat \<Rightarrow> cevent list \<Rightarrow> bool" where
  "within_budget n_outer n_inner n_cmds n_events es =
     (count_events is_outer_iteration es \<le> n_outer \<and>
      count_events is_inner_iteration es \<le> n_inner \<and>
      count_events is_run_cmd es \<le> n_cmds \<and>
      length es \<le> n_events)"







text \<open>
  The defaults of the session: \<open>--max-iters\<close> of \<open>main\<close>, and the parameters
  \<open>inner_loop_threshold\<close> and \<open>max_inner_iters\<close> of \<open>compile_loop\<close>.
\<close>

definition default_max_iters :: int where
  "default_max_iters = 6"

definition default_inner_loop_threshold :: int where
  "default_inner_loop_threshold = 10"

definition default_max_inner_iters :: int where
  "default_max_inner_iters = 8"

chapter \<open>Theorems\<close>

section \<open>The trace-order clause\<close>

lemma first_pos_Nil: "first_pos k a [] = None"
  by (simp add: first_pos_def)

lemma first_pos_Cons:
  "first_pos k a (n # ns) = (if n = a then Some k else first_pos (Suc k) a ns)"
  by (simp add: first_pos_def)

lemma order_idx_loop_first_pos:
  "order_idx_loop a b (enumerate k ns) (ai, bi) =
     (case ai of Some i \<Rightarrow> Some i | None \<Rightarrow> first_pos k a ns,
      case bi of Some i \<Rightarrow> Some i | None \<Rightarrow> first_pos k b ns)"
proof (induction ns arbitrary: k ai bi)
  case Nil
  show ?case by (simp add: first_pos_Nil split: option.splits)
next
  case (Cons n ns)
  show ?case
    by (simp add: Cons.IH first_pos_Cons split: option.splits)
qed

lemma check_trace_order_violation_iff:
  "check_trace_order_violation trace [a, b] =
     (case (first_pos 0 a (names trace), first_pos 0 b (names trace)) of
        (Some i, Some j) \<Rightarrow> i < j
      | _ \<Rightarrow> False)"
  by (simp add: check_trace_order_violation_def order_idx_loop_first_pos)

lemma names_trace_of: "names (trace_of ns) = ns"
  by (simp add: names_def trace_of_def comp_def)

text \<open>
  Claim C1, as the code has it. \<open>order_violation(a, b)\<close> reports that \<open>a\<close> came before
  \<open>b\<close>: on a trace whose names are \<open>[a, x, b]\<close> it is true whenever \<open>a\<close> and \<open>b\<close> are
  different names, on \<open>[b, x, a]\<close> it is false, and on a trace that lacks \<open>a\<close> or lacks
  \<open>b\<close> it is false.
\<close>

theorem order_violation_cases:
  "(names trace = [a, x, b] \<longrightarrow> check_trace_order_violation trace [a, b] = (a \<noteq> b)) \<and>
   (names trace = [b, x, a] \<longrightarrow> \<not> check_trace_order_violation trace [a, b]) \<and>
   (a \<notin> set (names trace) \<or> b \<notin> set (names trace)
      \<longrightarrow> \<not> check_trace_order_violation trace [a, b])"
  by (auto simp add: check_trace_order_violation_iff first_pos_def split: option.splits)

theorem order_violation_cases_witness:
  "check_trace_order_violation (trace_of [''A'', ''X'', ''B'']) [''A'', ''B''] \<and>
   \<not> check_trace_order_violation (trace_of [''B'', ''X'', ''A'']) [''A'', ''B''] \<and>
   \<not> check_trace_order_violation (trace_of [''A'', ''X'']) [''A'', ''B'']"
  using order_violation_cases [of "trace_of [''A'', ''X'', ''B'']" "''A''" "''X''" "''B''"]
        order_violation_cases [of "trace_of [''B'', ''X'', ''A'']" "''A''" "''X''" "''B''"]
        order_violation_cases [of "trace_of [''A'', ''X'']" "''A''" "''X''" "''B''"]
  by (simp add: names_trace_of)

text \<open>
  Claim C1, as stated, gives the first two cases the other way round. On the trace
  \<open>[A, X, B]\<close> the clause \<open>order_violation(A, B)\<close> is not false, and on \<open>[B, X, A]\<close> it
  is not true.
\<close>

theorem order_violation_counterexample:
  "check_trace_order_violation (trace_of [''A'', ''X'', ''B'']) [''A'', ''B''] \<noteq> False \<and>
   check_trace_order_violation (trace_of [''B'', ''X'', ''A'']) [''A'', ''B''] \<noteq> True"
  by (simp add: check_trace_order_violation_def names_def trace_of_def enumerate_eq_zip)

section \<open>The predicate evaluator\<close>

lemmas ev_basic_defs = append_reason_def count_predicate_def fail_predicate_def
  opt_count_def holds_if_present_def

lemma warn_unsupported_flags:
  "all_passed (warn_unsupported w u st) = all_passed st"
  "predicates_checked (warn_unsupported w u st) = predicates_checked st"
  by (simp_all add: warn_unsupported_def append_reason_def)

lemma eval_called_flags:
  "all_passed (eval_called c t st) = (all_passed st \<and> holds_if_present (check_trace_called t) c)"
  "predicates_checked (eval_called c t st) = predicates_checked st + opt_count c"
  by (simp_all add: eval_called_def ev_basic_defs split: option.splits)

lemma eval_not_called_flags:
  "all_passed (eval_not_called c t st) =
     (all_passed st \<and> holds_if_present (check_trace_not_called t) c)"
  "predicates_checked (eval_not_called c t st) = predicates_checked st + opt_count c"
  by (simp_all add: eval_not_called_def ev_basic_defs split: option.splits)

lemma check_trace_order_violation_length:
  "check_trace_order_violation t pair \<Longrightarrow> length pair = 2"
  by (auto simp add: check_trace_order_violation_def split: list.splits)

lemma eval_order_violation_Inr:
  assumes "eval_order_violation c t st = Inr st'"
  shows "entry_has_pair c \<Longrightarrow>
           all_passed st' = (all_passed st \<and> holds_if_present (order_clause_holds t) c)"
    and "predicates_checked st' = predicates_checked st + opt_count c"
  using assms
  by (auto simp add: eval_order_violation_def order_clause_holds_def entry_has_pair_def
      ev_basic_defs split: option.splits sum.splits if_splits)

lemma eval_order_violation_Inl:
  assumes "eval_order_violation c t st = Inl e"
  shows "\<not> holds_if_present (order_clause_holds t) c"
  using assms
  by (auto simp add: eval_order_violation_def order_clause_holds_def ev_basic_defs py_index_def
      split: option.splits sum.splits if_splits dest: check_trace_order_violation_length)

lemma eval_contains_any_flags:
  "all_passed (eval_contains_any c x st) =
     (all_passed st \<and> holds_if_present (check_text_contains_any x) c)"
  "predicates_checked (eval_contains_any c x st) = predicates_checked st + opt_count c"
  by (simp_all add: eval_contains_any_def ev_basic_defs split: option.splits)

lemma eval_not_contains_any_flags:
  "all_passed (eval_not_contains_any c x st) =
     (all_passed st \<and> holds_if_present (check_text_not_contains_any x) c)"
  "predicates_checked (eval_not_contains_any c x st) = predicates_checked st + opt_count c"
  by (simp_all add: eval_not_contains_any_def ev_basic_defs split: option.splits)

lemma eval_field_equals_flags:
  "all_passed (eval_field_equals c d st) =
     (all_passed st \<and> holds_if_present (field_equals_holds d) c)"
  "predicates_checked (eval_field_equals c d st) = predicates_checked st + opt_count c"
  by (simp_all add: eval_field_equals_def field_equals_holds_def ev_basic_defs Let_def
      split: option.splits)

lemma eval_field_in_flags:
  "all_passed (eval_field_in c d st) =
     (all_passed st \<and> holds_if_present (field_in_holds d) c)"
  "predicates_checked (eval_field_in c d st) = predicates_checked st + opt_count c"
  by (simp_all add: eval_field_in_def field_in_holds_def ev_basic_defs Let_def
      split: option.splits)

lemma eval_trace_ns_Inr:
  assumes "eval_trace_ns ts t st = Inr st'"
  shows "entry_has_pair (order_violation ts) \<Longrightarrow>
         all_passed st' =
           (all_passed st \<and> holds_if_present (check_trace_called t) (called ts) \<and>
            holds_if_present (check_trace_not_called t) (not_called ts) \<and>
            holds_if_present (order_clause_holds t) (order_violation ts))"
    and "predicates_checked st' =
           predicates_checked st + opt_count (called ts) + opt_count (not_called ts) +
           opt_count (order_violation ts)"
  using eval_order_violation_Inr [OF assms [unfolded eval_trace_ns_def]]
  by (simp_all add: eval_not_called_flags eval_called_flags warn_unsupported_flags)

lemma eval_trace_ns_Inl:
  assumes "eval_trace_ns ts t st = Inl e"
  shows "\<not> holds_if_present (order_clause_holds t) (order_violation ts)"
  using eval_order_violation_Inl [OF assms [unfolded eval_trace_ns_def]] .

lemma eval_text_ns_flags:
  "all_passed (eval_text_ns ts x st) =
     (all_passed st \<and> holds_if_present (check_text_contains_any x) (contains_any ts) \<and>
      holds_if_present (check_text_not_contains_any x) (not_contains_any ts))"
  "predicates_checked (eval_text_ns ts x st) =
     predicates_checked st + opt_count (contains_any ts) + opt_count (not_contains_any ts)"
  by (simp_all add: eval_text_ns_def eval_contains_any_flags eval_not_contains_any_flags
      warn_unsupported_flags)

lemma eval_json_ns_flags:
  "all_passed (eval_json_ns js d st) =
     (all_passed st \<and> holds_if_present (field_equals_holds d) (field_equals js) \<and>
      holds_if_present (field_in_holds d) (field_in js))"
  "predicates_checked (eval_json_ns js d st) =
     predicates_checked st + opt_count (field_equals js) + opt_count (field_in js)"
  by (simp_all add: eval_json_ns_def eval_field_equals_flags eval_field_in_flags
      warn_unsupported_flags)

lemma finish_evaluation_activated:
  "fst (finish_evaluation st) = (0 < predicates_checked st \<and> all_passed st)"
  by (simp add: finish_evaluation_def Let_def append_reason_def fail_predicate_def)

lemma activated_iff:
  assumes pair: "order_entry_has_pair ev"
  shows "activated_of (evaluate_violation ev t x aj) =
     (0 < supported_clause_count ev \<and> supported_clauses_hold ev t x (json_or_empty aj))"
proof (cases "eval_trace_ns (get_trace_spec ev) t
                \<lparr>reasons = [], all_passed = True, predicates_checked = 0\<rparr>")
  case (Inl e)
  then show ?thesis
    using eval_trace_ns_Inl [OF Inl]
    by (simp add: evaluate_violation_def activated_of_def supported_clauses_hold_def)
next
  case (Inr st1)
  show ?thesis
    using eval_trace_ns_Inr [OF Inr] pair [unfolded order_entry_has_pair_def]
    by (auto simp add: evaluate_violation_def activated_of_def Inr split_beta
        finish_evaluation_activated eval_json_ns_flags eval_text_ns_flags
        supported_clause_count_def supported_clauses_hold_def)
qed


lemma sbw_warn:
  "same_but_warnings st st' \<Longrightarrow>
   is_warning (w u) \<Longrightarrow> is_warning (w u') \<Longrightarrow>
   same_but_warnings (warn_unsupported w u st) (warn_unsupported w u' st')"
  by (simp add: same_but_warnings_def warn_unsupported_def append_reason_def)

lemma sbw_called:
  "same_but_warnings st st' \<Longrightarrow> same_but_warnings (eval_called c t st) (eval_called c t st')"
  by (simp add: same_but_warnings_def eval_called_def ev_basic_defs split: option.splits)

lemma sbw_not_called:
  "same_but_warnings st st' \<Longrightarrow>
   same_but_warnings (eval_not_called c t st) (eval_not_called c t st')"
  by (simp add: same_but_warnings_def eval_not_called_def ev_basic_defs split: option.splits)

lemma sbw_order:
  assumes "same_but_warnings st st'"
  shows "case (eval_order_violation c t st, eval_order_violation c t st') of
           (Inr s, Inr s') \<Rightarrow> same_but_warnings s s'
         | (Inl e, Inl e') \<Rightarrow> True
         | _ \<Rightarrow> False"
proof (cases c)
  case None
  with assms show ?thesis by (simp add: eval_order_violation_def)
next
  case (Some os)
  show ?thesis
  proof (cases "must_not_happen os")
    case None
    with assms Some show ?thesis
      by (simp add: eval_order_violation_def same_but_warnings_def ev_basic_defs)
  next
    case (Some pair)
    show ?thesis
    proof (cases "py_index pair 0")
      case (Inl e)
      then show ?thesis
        by (simp add: eval_order_violation_def \<open>c = Some os\<close> Some)
    next
      case p0: (Inr p0)
      show ?thesis
      proof (cases "py_index pair 1")
        case (Inl e)
        then show ?thesis
          by (simp add: eval_order_violation_def \<open>c = Some os\<close> Some p0)
      next
        case (Inr p1)
        with assms show ?thesis
          by (simp add: eval_order_violation_def \<open>c = Some os\<close> Some p0
              same_but_warnings_def ev_basic_defs is_warning_def)
      qed
    qed
  qed
qed

lemma sbw_contains_any:
  "same_but_warnings st st' \<Longrightarrow>
   same_but_warnings (eval_contains_any c x st) (eval_contains_any c x st')"
  by (simp add: same_but_warnings_def eval_contains_any_def ev_basic_defs split: option.splits)

lemma sbw_not_contains_any:
  "same_but_warnings st st' \<Longrightarrow>
   same_but_warnings (eval_not_contains_any c x st) (eval_not_contains_any c x st')"
  by (simp add: same_but_warnings_def eval_not_contains_any_def ev_basic_defs
      split: option.splits)

lemma sbw_field_equals:
  "same_but_warnings st st' \<Longrightarrow>
   same_but_warnings (eval_field_equals c d st) (eval_field_equals c d st')"
  by (simp add: same_but_warnings_def eval_field_equals_def ev_basic_defs Let_def
      split: option.splits)

lemma sbw_field_in:
  "same_but_warnings st st' \<Longrightarrow>
   same_but_warnings (eval_field_in c d st) (eval_field_in c d st')"
  by (simp add: same_but_warnings_def eval_field_in_def ev_basic_defs Let_def
      split: option.splits)

lemma sbw_finish:
  assumes "same_but_warnings st st'"
  shows "filter (\<lambda>r. \<not> is_warning r) (reasons_of (Inr (finish_evaluation st))) =
         filter (\<lambda>r. \<not> is_warning r) (reasons_of (Inr (finish_evaluation st')))"
  using assms
  by (auto simp add: same_but_warnings_def finish_evaluation_def reasons_of_def Let_def
      append_reason_def fail_predicate_def is_warning_def)

lemma get_spec_with_other_keys:
  "get_trace_spec (with_other_keys tk xk jk ev) = (get_trace_spec ev)\<lparr>trace_other_keys := tk\<rparr>"
  "get_text_spec (with_other_keys tk xk jk ev) = (get_text_spec ev)\<lparr>text_other_keys := xk\<rparr>"
  "get_json_spec (with_other_keys tk xk jk ev) = (get_json_spec ev)\<lparr>json_other_keys := jk\<rparr>"
  by (simp_all add: with_other_keys_def get_trace_spec_def get_text_spec_def get_json_spec_def)

lemma reasons_other_keys:
  "filter (\<lambda>r. \<not> is_warning r)
     (reasons_of (evaluate_violation (with_other_keys tk xk jk ev) t x aj)) =
   filter (\<lambda>r. \<not> is_warning r) (reasons_of (evaluate_violation ev t x aj))"
proof -
  let ?st0 = "\<lparr>reasons = [], all_passed = True, predicates_checked = 0\<rparr>"
  let ?ts = "get_trace_spec ev" and ?xs = "get_text_spec ev" and ?js = "get_json_spec ev"
  let ?ts' = "?ts\<lparr>trace_other_keys := tk\<rparr>"
  let ?xs' = "?xs\<lparr>text_other_keys := xk\<rparr>"
  let ?js' = "?js\<lparr>json_other_keys := jk\<rparr>"
  have st0: "same_but_warnings ?st0 ?st0"
    by (simp add: same_but_warnings_def)
  have tr: "case (eval_trace_ns ?ts' t ?st0, eval_trace_ns ?ts t ?st0) of
              (Inr s, Inr s') \<Rightarrow> same_but_warnings s s'
            | (Inl e, Inl e') \<Rightarrow> True
            | _ \<Rightarrow> False"
    unfolding eval_trace_ns_def
    using sbw_order [OF sbw_not_called [OF sbw_called [OF sbw_warn [OF st0]]]]
    by (simp add: is_warning_def)
  show ?thesis
  proof (cases "eval_trace_ns ?ts t ?st0")
    case (Inl e)
    with tr show ?thesis
      by (auto simp add: evaluate_violation_def get_spec_with_other_keys reasons_of_def
          split: sum.splits)
  next
    case (Inr s')
    with tr obtain s where s: "eval_trace_ns ?ts' t ?st0 = Inr s" and ss: "same_but_warnings s s'"
      by (auto split: sum.splits)
    have w: "is_warning (WarnUnsupportedText u)" "is_warning (WarnUnsupportedJson u)" for u
      by (simp_all add: is_warning_def)
    have xs: "same_but_warnings (eval_text_ns ?xs' x s) (eval_text_ns ?xs x s')"
      unfolding eval_text_ns_def
      using sbw_not_contains_any [OF sbw_contains_any [OF sbw_warn [OF ss w(1) w(1)]]]
      by simp
    have "same_but_warnings
            (eval_json_ns ?js' (json_or_empty aj) (eval_text_ns ?xs' x s))
            (eval_json_ns ?js (json_or_empty aj) (eval_text_ns ?xs x s'))"
      unfolding eval_json_ns_def
      using sbw_field_in [OF sbw_field_equals [OF sbw_warn [OF xs w(2) w(2)]]]
      by simp
    from sbw_finish [OF this] show ?thesis
      by (simp add: evaluate_violation_def get_spec_with_other_keys s Inr)
  qed
qed


lemma opt_count_0: "opt_count v = 0 \<longleftrightarrow> v = None"
  by (simp add: opt_count_def split: option.splits)

lemma no_supported_result:
  assumes "supported_clause_count ev = 0"
  shows "evaluate_violation ev t x aj =
           Inr (False, Joined
             (reasons (warn_unsupported WarnUnsupportedJson
                (unknown_keys (json_keys (get_json_spec ev)) SUPPORTED_JSON)
                (warn_unsupported WarnUnsupportedText
                   (unknown_keys (text_keys (get_text_spec ev)) SUPPORTED_TEXT)
                   (warn_unsupported WarnUnsupportedTrace
                      (unknown_keys (trace_keys (get_trace_spec ev)) SUPPORTED_TRACE)
                      \<lparr>reasons = [], all_passed = True, predicates_checked = 0\<rparr>)))
              @ [ErrorNoSupportedPredicates]))"
proof -
  from assms have n:
    "called (get_trace_spec ev) = None" "not_called (get_trace_spec ev) = None"
    "order_violation (get_trace_spec ev) = None"
    "contains_any (get_text_spec ev) = None" "not_contains_any (get_text_spec ev) = None"
    "field_equals (get_json_spec ev) = None" "field_in (get_json_spec ev) = None"
    by (simp_all add: supported_clause_count_def opt_count_0)
  show ?thesis
    by (simp add: evaluate_violation_def eval_trace_ns_def eval_text_ns_def eval_json_ns_def n
        eval_called_def eval_not_called_def eval_order_violation_def eval_contains_any_def
        eval_not_contains_any_def eval_field_equals_def eval_field_in_def
        finish_evaluation_def warn_unsupported_flags Let_def append_reason_def
        fail_predicate_def)
qed

lemma prefix_warn: "prefix (reasons st) (reasons (warn_unsupported w u st))"
  by (simp add: warn_unsupported_def append_reason_def)

lemma prefix_called: "prefix (reasons st) (reasons (eval_called c t st))"
  by (simp add: eval_called_def ev_basic_defs split: option.splits)

lemma prefix_not_called: "prefix (reasons st) (reasons (eval_not_called c t st))"
  by (simp add: eval_not_called_def ev_basic_defs split: option.splits)

lemma prefix_order_violation:
  "eval_order_violation c t st = Inr st' \<Longrightarrow> prefix (reasons st) (reasons st')"
  by (auto simp add: eval_order_violation_def ev_basic_defs
      split: option.splits sum.splits if_splits)

lemma prefix_contains_any: "prefix (reasons st) (reasons (eval_contains_any c x st))"
  by (simp add: eval_contains_any_def ev_basic_defs split: option.splits)

lemma prefix_not_contains_any: "prefix (reasons st) (reasons (eval_not_contains_any c x st))"
  by (simp add: eval_not_contains_any_def ev_basic_defs split: option.splits)

lemma prefix_field_equals: "prefix (reasons st) (reasons (eval_field_equals c d st))"
  by (simp add: eval_field_equals_def ev_basic_defs Let_def split: option.splits)

lemma prefix_field_in: "prefix (reasons st) (reasons (eval_field_in c d st))"
  by (simp add: eval_field_in_def ev_basic_defs Let_def split: option.splits)

lemma prefix_text_ns: "prefix (reasons st) (reasons (eval_text_ns ts x st))"
  unfolding eval_text_ns_def
  by (meson prefix_order.trans prefix_warn prefix_contains_any prefix_not_contains_any)

lemma prefix_json_ns: "prefix (reasons st) (reasons (eval_json_ns js d st))"
  unfolding eval_json_ns_def
  by (meson prefix_order.trans prefix_warn prefix_field_equals prefix_field_in)

lemma set_reasons_finish:
  "set (reasons st) \<subseteq> set (reasons_of (Inr (finish_evaluation st)))"
  by (auto simp add: finish_evaluation_def reasons_of_def Let_def append_reason_def
      fail_predicate_def)

lemma warn_in_reasons:
  "u \<noteq> [] \<Longrightarrow> w u \<in> set (reasons (warn_unsupported w u st))"
  by (simp add: warn_unsupported_def append_reason_def)

lemma trace_warning_reported:
  assumes r: "evaluate_violation ev t x aj = Inr res"
    and u: "unknown_keys (trace_keys (get_trace_spec ev)) SUPPORTED_TRACE \<noteq> []"
  shows "WarnUnsupportedTrace (unknown_keys (trace_keys (get_trace_spec ev)) SUPPORTED_TRACE)
           \<in> set (reasons_of (evaluate_violation ev t x aj))"
proof -
  let ?st0 = "\<lparr>reasons = [], all_passed = True, predicates_checked = 0\<rparr>"
  let ?u = "unknown_keys (trace_keys (get_trace_spec ev)) SUPPORTED_TRACE"
  let ?w = "warn_unsupported WarnUnsupportedTrace ?u ?st0"
  from r obtain st1 where st1: "eval_trace_ns (get_trace_spec ev) t ?st0 = Inr st1"
    by (auto simp add: evaluate_violation_def split: sum.splits)
  let ?fin = "eval_json_ns (get_json_spec ev) (json_or_empty aj)
                (eval_text_ns (get_text_spec ev) x st1)"
  have "prefix (reasons ?w) (reasons st1)"
    using prefix_order_violation [OF st1 [unfolded eval_trace_ns_def]]
    by (meson prefix_order.trans prefix_called prefix_not_called)
  then have "prefix (reasons ?w) (reasons ?fin)"
    by (meson prefix_order.trans prefix_text_ns prefix_json_ns)
  then have "set (reasons ?w) \<subseteq> set (reasons ?fin)"
    by (rule set_mono_prefix)
  with warn_in_reasons [OF u] set_reasons_finish [of ?fin] show ?thesis
    by (auto simp add: evaluate_violation_def st1)
qed

lemma text_warning_reported:
  assumes r: "evaluate_violation ev t x aj = Inr res"
    and u: "unknown_keys (text_keys (get_text_spec ev)) SUPPORTED_TEXT \<noteq> []"
  shows "WarnUnsupportedText (unknown_keys (text_keys (get_text_spec ev)) SUPPORTED_TEXT)
           \<in> set (reasons_of (evaluate_violation ev t x aj))"
proof -
  let ?st0 = "\<lparr>reasons = [], all_passed = True, predicates_checked = 0\<rparr>"
  let ?u = "unknown_keys (text_keys (get_text_spec ev)) SUPPORTED_TEXT"
  from r obtain st1 where st1: "eval_trace_ns (get_trace_spec ev) t ?st0 = Inr st1"
    by (auto simp add: evaluate_violation_def split: sum.splits)
  let ?w = "warn_unsupported WarnUnsupportedText ?u st1"
  let ?fin = "eval_json_ns (get_json_spec ev) (json_or_empty aj)
                (eval_text_ns (get_text_spec ev) x st1)"
  have "prefix (reasons ?w) (reasons (eval_text_ns (get_text_spec ev) x st1))"
    unfolding eval_text_ns_def
    by (meson prefix_order.trans prefix_contains_any prefix_not_contains_any)
  then have "prefix (reasons ?w) (reasons ?fin)"
    by (meson prefix_order.trans prefix_json_ns)
  then have "set (reasons ?w) \<subseteq> set (reasons ?fin)"
    by (rule set_mono_prefix)
  with warn_in_reasons [OF u] set_reasons_finish [of ?fin] show ?thesis
    by (auto simp add: evaluate_violation_def st1)
qed

lemma json_warning_reported:
  assumes r: "evaluate_violation ev t x aj = Inr res"
    and u: "unknown_keys (json_keys (get_json_spec ev)) SUPPORTED_JSON \<noteq> []"
  shows "WarnUnsupportedJson (unknown_keys (json_keys (get_json_spec ev)) SUPPORTED_JSON)
           \<in> set (reasons_of (evaluate_violation ev t x aj))"
proof -
  let ?st0 = "\<lparr>reasons = [], all_passed = True, predicates_checked = 0\<rparr>"
  let ?u = "unknown_keys (json_keys (get_json_spec ev)) SUPPORTED_JSON"
  from r obtain st1 where st1: "eval_trace_ns (get_trace_spec ev) t ?st0 = Inr st1"
    by (auto simp add: evaluate_violation_def split: sum.splits)
  let ?w = "warn_unsupported WarnUnsupportedJson ?u (eval_text_ns (get_text_spec ev) x st1)"
  let ?fin = "eval_json_ns (get_json_spec ev) (json_or_empty aj)
                (eval_text_ns (get_text_spec ev) x st1)"
  have "prefix (reasons ?w) (reasons ?fin)"
    unfolding eval_json_ns_def
    by (meson prefix_order.trans prefix_field_equals prefix_field_in)
  then have "set (reasons ?w) \<subseteq> set (reasons ?fin)"
    by (rule set_mono_prefix)
  with warn_in_reasons [OF u] set_reasons_finish [of ?fin] show ?thesis
    by (auto simp add: evaluate_violation_def st1)
qed

lemma supported_with_other_keys:
  "supported_clause_count (with_other_keys tk xk jk ev) = supported_clause_count ev"
  "supported_clauses_hold (with_other_keys tk xk jk ev) t x d = supported_clauses_hold ev t x d"
  "order_entry_has_pair (with_other_keys tk xk jk ev) = order_entry_has_pair ev"
  by (simp_all add: supported_clause_count_def supported_clauses_hold_def
      order_entry_has_pair_def get_spec_with_other_keys)

text \<open>
  On every predicate whose \<open>order_violation\<close> entry, when there is one, has its
  \<open>must_not_happen\<close> pair, the evaluator does what it is to do: \<open>activated\<close> is true
  exactly when the predicate holds at least one supported key and every supported clause
  it holds is satisfied by the trace, the text and the JSON response. Keys outside the
  supported sets leave the activated result and every reason but the warnings as they
  are, and each namespace that has such keys reports its warning. A predicate with no
  supported key evaluates to \<open>activated = false\<close>, and its last reason is the error that
  no supported predicate was found.
\<close>

lemma evaluate_violation_with_pairs:
  assumes pair: "order_entry_has_pair ev"
  shows
  "(activated_of (evaluate_violation ev t x aj) \<longleftrightarrow>
      0 < supported_clause_count ev \<and> supported_clauses_hold ev t x (json_or_empty aj)) \<and>
   activated_of (evaluate_violation (with_other_keys tk xk jk ev) t x aj) =
     activated_of (evaluate_violation ev t x aj) \<and>
   filter (\<lambda>r. \<not> is_warning r)
     (reasons_of (evaluate_violation (with_other_keys tk xk jk ev) t x aj)) =
     filter (\<lambda>r. \<not> is_warning r) (reasons_of (evaluate_violation ev t x aj)) \<and>
   ((\<exists>res. evaluate_violation ev t x aj = Inr res) \<longrightarrow>
      (unknown_keys (trace_keys (get_trace_spec ev)) SUPPORTED_TRACE \<noteq> [] \<longrightarrow>
         WarnUnsupportedTrace (unknown_keys (trace_keys (get_trace_spec ev)) SUPPORTED_TRACE)
           \<in> set (reasons_of (evaluate_violation ev t x aj))) \<and>
      (unknown_keys (text_keys (get_text_spec ev)) SUPPORTED_TEXT \<noteq> [] \<longrightarrow>
         WarnUnsupportedText (unknown_keys (text_keys (get_text_spec ev)) SUPPORTED_TEXT)
           \<in> set (reasons_of (evaluate_violation ev t x aj))) \<and>
      (unknown_keys (json_keys (get_json_spec ev)) SUPPORTED_JSON \<noteq> [] \<longrightarrow>
         WarnUnsupportedJson (unknown_keys (json_keys (get_json_spec ev)) SUPPORTED_JSON)
           \<in> set (reasons_of (evaluate_violation ev t x aj)))) \<and>
   (supported_clause_count ev = 0 \<longrightarrow>
      (\<exists>rs. evaluate_violation ev t x aj =
              Inr (False, Joined (rs @ [ErrorNoSupportedPredicates]))))"
proof (intro conjI impI)
  show "activated_of (evaluate_violation ev t x aj) \<longleftrightarrow>
          0 < supported_clause_count ev \<and> supported_clauses_hold ev t x (json_or_empty aj)"
    by (rule activated_iff [OF pair])
  have "order_entry_has_pair (with_other_keys tk xk jk ev)"
    using pair by (simp add: supported_with_other_keys)
  then show "activated_of (evaluate_violation (with_other_keys tk xk jk ev) t x aj) =
          activated_of (evaluate_violation ev t x aj)"
    by (simp add: activated_iff pair supported_with_other_keys)
  show "filter (\<lambda>r. \<not> is_warning r)
          (reasons_of (evaluate_violation (with_other_keys tk xk jk ev) t x aj)) =
        filter (\<lambda>r. \<not> is_warning r) (reasons_of (evaluate_violation ev t x aj))"
    by (rule reasons_other_keys)
next
  assume "\<exists>res. evaluate_violation ev t x aj = Inr res"
    and "unknown_keys (trace_keys (get_trace_spec ev)) SUPPORTED_TRACE \<noteq> []"
  then show "WarnUnsupportedTrace (unknown_keys (trace_keys (get_trace_spec ev)) SUPPORTED_TRACE)
               \<in> set (reasons_of (evaluate_violation ev t x aj))"
    by (blast intro: trace_warning_reported)
next
  assume "\<exists>res. evaluate_violation ev t x aj = Inr res"
    and "unknown_keys (text_keys (get_text_spec ev)) SUPPORTED_TEXT \<noteq> []"
  then show "WarnUnsupportedText (unknown_keys (text_keys (get_text_spec ev)) SUPPORTED_TEXT)
               \<in> set (reasons_of (evaluate_violation ev t x aj))"
    by (blast intro: text_warning_reported)
next
  assume "\<exists>res. evaluate_violation ev t x aj = Inr res"
    and "unknown_keys (json_keys (get_json_spec ev)) SUPPORTED_JSON \<noteq> []"
  then show "WarnUnsupportedJson (unknown_keys (json_keys (get_json_spec ev)) SUPPORTED_JSON)
               \<in> set (reasons_of (evaluate_violation ev t x aj))"
    by (blast intro: json_warning_reported)
next
  assume "supported_clause_count ev = 0"
  from no_supported_result [OF this]
  show "\<exists>rs. evaluate_violation ev t x aj =
              Inr (False, Joined (rs @ [ErrorNoSupportedPredicates]))"
    by blast
qed

text \<open>The lemma at three concrete runs, whose predicates have no \<open>order_violation\<close> entry.\<close>

lemma evaluate_violation_with_pairs_runs:
  "order_entry_has_pair ev_unsupported_only \<and>
   supported_clause_count ev_unsupported_only = 0 \<and>
   evaluate_violation ev_unsupported_only (trace_of [''lookup'']) ''done'' None =
     Inr (False, Joined [WarnUnsupportedTrace [''matches''], WarnUnsupportedText [''regex''],
                         WarnUnsupportedJson [''field_gt''], ErrorNoSupportedPredicates]) \<and>
   order_entry_has_pair ev_called_lookup \<and>
   0 < supported_clause_count ev_called_lookup \<and>
   activated_of (evaluate_violation ev_called_lookup (trace_of [''lookup'']) ''done'' None) \<and>
   \<not> activated_of (evaluate_violation ev_called_lookup (trace_of [''respond'']) ''done'' None)"
proof -
  let ?t = "trace_of [''lookup'']"
  have p0: "order_entry_has_pair ev_unsupported_only"
    by (simp add: order_entry_has_pair_def entry_has_pair_def ev_unsupported_only_def
        get_trace_spec_def)
  have p1: "order_entry_has_pair ev_called_lookup"
    by (simp add: order_entry_has_pair_def entry_has_pair_def ev_called_lookup_def
        get_trace_spec_def)
  have c0: "supported_clause_count ev_unsupported_only = 0"
    by (simp add: supported_clause_count_def ev_unsupported_only_def get_trace_spec_def
        get_text_spec_def get_json_spec_def opt_count_def)
  have c1: "0 < supported_clause_count ev_called_lookup"
    by (simp add: supported_clause_count_def ev_called_lookup_def get_trace_spec_def
        get_text_spec_def get_json_spec_def opt_count_def)
  have h1: "supported_clauses_hold ev_called_lookup ?t ''done'' (json_or_empty None)"
    by (simp add: supported_clauses_hold_def ev_called_lookup_def get_trace_spec_def
        get_text_spec_def get_json_spec_def holds_if_present_def check_trace_called_def
        names_trace_of)
  have h2: "\<not> supported_clauses_hold ev_called_lookup (trace_of [''respond'']) ''done''
                (json_or_empty None)"
    by (simp add: supported_clauses_hold_def ev_called_lookup_def get_trace_spec_def
        get_text_spec_def get_json_spec_def holds_if_present_def check_trace_called_def
        names_trace_of)
  have u: "unknown_keys (trace_keys (get_trace_spec ev_unsupported_only)) SUPPORTED_TRACE
             = [''matches'']"
          "unknown_keys (text_keys (get_text_spec ev_unsupported_only)) SUPPORTED_TEXT
             = [''regex'']"
          "unknown_keys (json_keys (get_json_spec ev_unsupported_only)) SUPPORTED_JSON
             = [''field_gt'']"
    by (simp_all add: unknown_keys_def trace_keys_def text_keys_def json_keys_def opt_key_def
        ev_unsupported_only_def get_trace_spec_def get_text_spec_def get_json_spec_def
        SUPPORTED_TRACE_def SUPPORTED_TEXT_def SUPPORTED_JSON_def)
  have r: "evaluate_violation ev_unsupported_only ?t ''done'' None =
     Inr (False, Joined [WarnUnsupportedTrace [''matches''], WarnUnsupportedText [''regex''],
                         WarnUnsupportedJson [''field_gt''], ErrorNoSupportedPredicates])"
    by (simp add: no_supported_result [OF c0] u warn_unsupported_def append_reason_def)
  from evaluate_violation_with_pairs [OF p1, of ?t "''done''" None "[]" "[]" "[]"]
       evaluate_violation_with_pairs
         [OF p1, of "trace_of [''respond'']" "''done''" None "[]" "[]" "[]"]
       p0 p1 c0 c1 h1 h2 r
  show ?thesis by simp
qed

text \<open>
  Claim C2. The claim holds on the predicates of the lemma above, and the code departs
  from it on an \<open>order_violation\<close> entry that has no \<open>must_not_happen\<close> pair. The
  evaluator counts such an entry as a checked predicate and checks nothing: for the
  predicate that holds this entry alone, the result is \<open>activated = true\<close> with the
  reason text \<open>no predicates specified\<close>, on every trace, text and JSON response,
  although the one supported clause of the predicate holds on none of them.
\<close>

theorem evaluate_violation_empty_order_entry:
  "evaluate_violation ev_empty_order t x aj = Inr (True, NoPredicatesSpecified) \<and>
   supported_clause_count ev_empty_order = 1 \<and>
   \<not> supported_clauses_hold ev_empty_order t x (json_or_empty aj)"
  by (simp add: evaluate_violation_def ev_empty_order_def get_trace_spec_def get_text_spec_def
      get_json_spec_def eval_trace_ns_def eval_text_ns_def eval_json_ns_def
      eval_called_def eval_not_called_def eval_order_violation_def eval_contains_any_def
      eval_not_contains_any_def eval_field_equals_def eval_field_in_def
      warn_unsupported_def unknown_keys_def trace_keys_def text_keys_def json_keys_def
      opt_key_def SUPPORTED_TRACE_def count_predicate_def finish_evaluation_def
      supported_clause_count_def opt_count_def supported_clauses_hold_def
      holds_if_present_def order_clause_holds_def)

section \<open>The mutation score\<close>

lemma killed_le_activated: "length (killed_results rs) \<le> length (activated_results rs)"
  by (simp add: killed_results_def)

lemma mutation_score_eq:
  "mutation_score rs =
     Inr (if activated_results rs = [] then 0
          else of_nat (length (killed_results rs)) / of_nat (length (activated_results rs)))"
  by (simp add: mutation_score_def py_truediv_def activated_count_def killed_count_def)

lemma killed_results_filter: "killed_results rs = filter (\<lambda>r. activated r \<and> killed r) rs"
  by (simp add: killed_results_def activated_results_def conj_commute)

lemma stats_skip_inconclusive:
  assumes "\<not> activated r"
  shows "activated_results (rs @ r # rs') = activated_results (rs @ rs')"
    and "killed_results (rs @ r # rs') = killed_results (rs @ rs')"
    and "survived_results (rs @ r # rs') = survived_results (rs @ rs')"
  using assms by (simp_all add: activated_results_def killed_results_def survived_results_def)

text \<open>
  Claim C5. The mutation score is the number of activated and killed mutants divided by
  the number of activated mutants, and it lies between 0 and 1. A mutant that never
  activated changes neither count: the score is the same with and without its result,
  and the result is among neither the killed nor the survived ones, only among the
  inconclusive ones.
\<close>

theorem mutation_score_value:
  "(\<exists>q. mutation_score rs = Inr q \<and> 0 \<le> q \<and> q \<le> 1) \<and>
   (activated_results rs \<noteq> [] \<longrightarrow>
      mutation_score rs =
        Inr (of_nat (length (filter (\<lambda>r. activated r \<and> killed r) rs)) /
             of_nat (length (filter (\<lambda>r. activated r) rs)))) \<and>
   (\<not> activated r \<longrightarrow>
      mutation_score (rs @ r # rs') = mutation_score (rs @ rs') \<and>
      r \<notin> set (killed_results (rs @ r # rs')) \<and>
      r \<notin> set (survived_results (rs @ r # rs')) \<and>
      r \<in> set (inconclusive_results (rs @ r # rs')))"
proof (intro conjI impI)
  have "(of_nat (length (killed_results rs)) :: rat) \<le> of_nat (length (activated_results rs))"
    using killed_le_activated [of rs] by (simp only: of_nat_le_iff)
  then show "\<exists>q. mutation_score rs = Inr q \<and> 0 \<le> q \<and> q \<le> 1"
    by (simp add: mutation_score_eq divide_le_eq_1)
next
  assume "activated_results rs \<noteq> []"
  then show "mutation_score rs =
        Inr (of_nat (length (filter (\<lambda>r. activated r \<and> killed r) rs)) /
             of_nat (length (filter (\<lambda>r. activated r) rs)))"
    by (simp add: mutation_score_eq killed_results_filter) (simp add: activated_results_def)
next
  assume r: "\<not> activated r"
  show "mutation_score (rs @ r # rs') = mutation_score (rs @ rs')"
    by (simp add: mutation_score_eq stats_skip_inconclusive [OF r])
  from r show "r \<notin> set (killed_results (rs @ r # rs'))"
    by (simp add: killed_results_def activated_results_def)
  from r show "r \<notin> set (survived_results (rs @ r # rs'))"
    by (simp add: survived_results_def activated_results_def)
  from r show "r \<in> set (inconclusive_results (rs @ r # rs'))"
    by (simp add: inconclusive_results_def)
qed

theorem mutation_score_value_witness:
  "activated_results [result_of ''m1'' True True, result_of ''m3'' True False] \<noteq> [] \<and>
   \<not> activated (result_of ''m2'' False False) \<and>
   mutation_score [result_of ''m1'' True True, result_of ''m2'' False False,
                   result_of ''m3'' True False] = Inr (1 / 2)"
proof -
  let ?rs = "[result_of ''m1'' True True]" and ?rs' = "[result_of ''m3'' True False]"
  let ?r = "result_of ''m2'' False False"
  have a: "activated_results (?rs @ ?rs') \<noteq> []"
    by (simp add: activated_results_def result_of_def)
  have n: "\<not> activated ?r"
    by (simp add: result_of_def)
  from mutation_score_value [where rs = "?rs @ ?rs'" and r = ?r and rs' = "[]"] a
  have "mutation_score (?rs @ ?rs') = Inr (1 / 2)"
    by (simp add: result_of_def)
  moreover from mutation_score_value [where rs = ?rs and r = ?r and rs' = ?rs'] n
  have "mutation_score (?rs @ ?r # ?rs') = mutation_score (?rs @ ?rs')"
    by simp
  ultimately show ?thesis using a n by simp
qed

text \<open>
  Claim C10. Computing the mutation score always returns a number and never raises
  \<open>ZeroDivisionError\<close>; when no mutant activated, which includes the run with no
  mutants at all, the score is 0.
\<close>

theorem mutation_score_total:
  "(\<exists>q. mutation_score rs = Inr q) \<and>
   mutation_score rs \<noteq> Inl ZeroDivisionError \<and>
   ((\<forall>r \<in> set rs. \<not> activated r) \<longrightarrow> mutation_score rs = Inr 0)"
proof -
  have "(\<forall>r \<in> set rs. \<not> activated r) \<Longrightarrow> activated_results rs = []"
    by (simp add: activated_results_def)
  then show ?thesis
    by (auto simp add: mutation_score_eq)
qed

theorem mutation_score_total_witness:
  "list_all (\<lambda>r. \<not> activated r) [result_of ''m1'' False False, result_of ''m2'' False False] \<and>
   mutation_score [result_of ''m1'' False False, result_of ''m2'' False False] = Inr 0 \<and>
   mutation_score [] = Inr 0"
  using mutation_score_total [of "[result_of ''m1'' False False, result_of ''m2'' False False]"]
        mutation_score_total [of "[]"]
  by (simp add: result_of_def)

section \<open>The attempt loop of run_mutation_test\<close>

lemma upto_map_int: "[int j .. int n - 1] = map int [j..<n]"
proof (induction "n - j" arbitrary: j)
  case 0
  then show ?case by simp
next
  case (Suc d)
  then have "j < n" and d: "d = n - Suc j" by simp_all
  have "[int j .. int n - 1] = int j # [int (Suc j) .. int n - 1]"
    using \<open>j < n\<close> by (subst upto_rec1) (simp_all add: add.commute)
  also have "\<dots> = int j # map int [Suc j..<n]"
    using Suc.hyps(1) [OF d] by simp
  also have "\<dots> = map int [j..<n]"
    using \<open>j < n\<close> by (simp add: upt_conv_Cons)
  finally show ?case .
qed

lemma range_max_attempts: "[0 .. m - 1] = map int [0..<nat m]"
proof (cases "0 < m")
  case True
  then have "m = int (nat m)" by simp
  then show ?thesis using upto_map_int [of 0 "nat m"] by simp
next
  case False
  then show ?thesis by simp
qed

lemma apply_events_simps:
  "apply_events [] f = f"
  "apply_events (e # es) f = apply_events es (apply_event e f)"
  "apply_events (es @ es') f = apply_events es' (apply_events es f)"
  by (simp_all add: apply_events_def)

lemma attempts_log_empty: "attempts_log c cache_dir mid g0 j j = []"
  by (simp add: attempts_log_def)

lemma attempts_log_step:
  "j < k \<Longrightarrow> attempts_log c cache_dir mid g0 j k =
     attempt_events c cache_dir mid g0 j @ attempts_log c cache_dir mid g0 (Suc j) k"
  by (simp add: attempts_log_def upt_conv_Cons)

lemma find_upt_ge:
  "find P [j..<n] = Some i \<Longrightarrow> j \<le> i \<and> i < n"
  by (auto simp add: find_Some_iff)

lemma attempt_loop_post:
  assumes "generate_calls w = g0 + j" and "j \<le> n" and "\<not> st_activated st"
  shows "loop_post c cache_dir mid g0 j n st w
           (attempt_loop c cache_dir mid (map int [j..<n]) st w)"
  using assms
proof (induction "n - j" arbitrary: j st w)
  case 0
  then show ?case by (simp add: loop_post_def attempts_log_empty apply_events_simps)
next
  case (Suc d)
  then have jn: "j < n" and d: "d = n - Suc j" and sj: "Suc j \<le> n" by simp_all
  have upt: "[j..<n] = j # [Suc j..<n]"
    using jn by (simp add: upt_conv_Cons)
  let ?w1 = "w\<lparr>log := log w @ [Generate (g0 + j)], generate_calls := g0 + j + 1\<rparr>"
  have g1: "generate_calls ?w1 = g0 + Suc j" by simp
  show ?case
  proof (cases "generate_mutant_result c (g0 + j)")
    case None
    let ?st1 = "st\<lparr>st_attempts := int j + 1\<rparr>"
    have na: "\<not> activates c (g0 + j)"
      by (simp add: activates_def None)
    have loop: "attempt_loop c cache_dir mid (map int [j..<n]) st w =
                attempt_loop c cache_dir mid (map int [Suc j..<n]) ?st1 ?w1"
      by (simp add: upt call_generate_mutant_def Suc.prems(1) None)
    have ih: "loop_post c cache_dir mid g0 (Suc j) n ?st1 ?w1
                (attempt_loop c cache_dir mid (map int [Suc j..<n]) ?st1 ?w1)"
      using Suc.hyps(1) [OF d g1 sj] Suc.prems(3) by simp
    have ev: "attempt_events c cache_dir mid g0 j = [Generate (g0 + j)]"
      by (simp add: attempt_events_def None)
    show ?thesis
      unfolding loop
      using ih jn sj
      by (auto simp add: loop_post_def upt na ev attempts_log_step apply_events_simps
          split: option.splits dest!: find_upt_ge)
  next
    case (Some m)
    let ?w2 = "cache_mutant cache_dir mid (int j + 1) m ?w1"
    let ?a = "case probe_activated c (g0 + j) m of None \<Rightarrow> False | Some a \<Rightarrow> a"
    let ?w3 = "?w2\<lparr>log := log ?w2 @ [Probe (g0 + j) m]\<rparr>"
    let ?st1 = "st\<lparr>st_attempts := int j + 1, st_mutant_artifacts := Some m, st_activated := ?a\<rparr>"
    have act: "activates c (g0 + j) = ?a"
      by (simp add: activates_def Some split: option.splits)
    have g3: "generate_calls ?w3 = g0 + Suc j"
      by (simp add: cache_mutant_def save_prompt_def write_file_def split: option.splits)
    have l3: "log ?w3 = log w @ attempt_events c cache_dir mid g0 j"
      by (simp add: attempt_events_def Some cache_mutant_def save_prompt_def write_file_def
          split: option.splits)
    have f3: "fs ?w3 = apply_events (attempt_events c cache_dir mid g0 j) (fs w)"
      by (simp add: attempt_events_def Some cache_mutant_def save_prompt_def write_file_def
          apply_events_simps split: option.splits)
    have loop: "attempt_loop c cache_dir mid (map int [j..<n]) st w =
                (if ?a then (?st1, ?w3)
                 else attempt_loop c cache_dir mid (map int [Suc j..<n]) ?st1 ?w3)"
      by (simp add: upt call_generate_mutant_def call_activation_probe_def Suc.prems(1) Some)
    show ?thesis
    proof (cases ?a)
      case True
      then show ?thesis
        unfolding loop
        using g3 l3 f3 act
        by (simp add: loop_post_def upt Some attempts_log_step attempts_log_empty
            apply_events_simps)
    next
      case False
      have ih: "loop_post c cache_dir mid g0 (Suc j) n ?st1 ?w3
                  (attempt_loop c cache_dir mid (map int [Suc j..<n]) ?st1 ?w3)"
        using Suc.hyps(1) [OF d g3 sj] False by simp
      show ?thesis
        unfolding loop
        using ih jn sj False act l3 f3
        by (auto simp add: loop_post_def upt attempts_log_step apply_events_simps
            split: option.splits dest!: find_upt_ge)
    qed
  qed
qed

lemma first_activating_bound: "first_activating c g0 n = Some i \<Longrightarrow> i < n"
  by (auto simp add: first_activating_def dest: find_upt_ge)

lemma attempts_made_le: "attempts_made c g0 n \<le> n"
  by (auto simp add: attempts_made_def split: option.splits dest: first_activating_bound)

lemma run_mutation_test_loop:
  "loop_post c cache_dir mid (generate_calls w) 0 (nat (get_or 5 (max_attempts gconf)))
     \<lparr>st_activated = False, st_attempts = 0, st_mutant_artifacts = None\<rparr> w
     (attempt_loop c cache_dir mid [0 .. get_or 5 (max_attempts gconf) - 1]
        \<lparr>st_activated = False, st_attempts = 0, st_mutant_artifacts = None\<rparr> w)"
  unfolding range_max_attempts
  by (rule attempt_loop_post) simp_all

lemma run_mutation_test_inconclusive:
  assumes "first_activating c (generate_calls w) (nat (get_or 5 (max_attempts gconf))) = None"
  shows "fst (run_mutation_test c mu gconf prompt_path test_cmd cache_dir w) =
           Inr (inconclusive_result mu (int (nat (get_or 5 (max_attempts gconf)))))"
    and "generate_calls (snd (run_mutation_test c mu gconf prompt_path test_cmd cache_dir w)) =
           generate_calls w + nat (get_or 5 (max_attempts gconf))"
    and "log (snd (run_mutation_test c mu gconf prompt_path test_cmd cache_dir w)) =
           log w @ attempts_log c cache_dir (m_id mu) (generate_calls w) 0
                     (nat (get_or 5 (max_attempts gconf)))"
    and "fs (snd (run_mutation_test c mu gconf prompt_path test_cmd cache_dir w)) =
           apply_events (attempts_log c cache_dir (m_id mu) (generate_calls w) 0
                     (nat (get_or 5 (max_attempts gconf)))) (fs w)"
  using run_mutation_test_loop [where c = c and cache_dir = cache_dir and mid = "m_id mu" and gconf = gconf and w = w] assms
  by (auto simp add: run_mutation_test_def loop_post_def first_activating_def
      inconclusive_result_def split_beta split: if_splits)

lemma run_mutation_test_activated:
  fixes c mu gconf cache_dir w test_cmd i prompt_path
  defines "n \<equiv> nat (get_or 5 (max_attempts gconf))"
  defines "f1 \<equiv> apply_events (attempts_log c cache_dir (m_id mu) (generate_calls w) 0 (Suc i)) (fs w)"
  defines "R \<equiv> run_mutation_test c mu gconf prompt_path test_cmd cache_dir w"
  assumes "first_activating c (generate_calls w) n = Some i"
  shows "\<exists>m. generate_mutant_result c (generate_calls w + i) = Some m \<and>
           generate_calls (snd R) = generate_calls w + i + 1 \<and>
           log (snd R) =
             log w @ attempts_log c cache_dir (m_id mu) (generate_calls w) 0 (Suc i) @
             verification_events c test_cmd f1 m \<and>
           fs (snd R) = apply_events (verification_events c test_cmd f1 m) f1 \<and>
           fst R =
             (let t1 = mktemp c f1 ''.txt'';
                  f2 = f1(t1 \<mapsto> prompt m);
                  t2 = mktemp c f2 ''.yaml'';
                  f3 = f2(t2 \<mapsto> yaml_dump c (tool_descriptions m))
              in case run_tests_result c f3 t1 t2 of
                   None \<Rightarrow> Inl TestCommandError
                 | Some r \<Rightarrow> Inr (activated_result mu (int i + 1) r))"
  using run_mutation_test_loop [where c = c and cache_dir = cache_dir and mid = "m_id mu" and gconf = gconf and w = w] assms(4)
  unfolding R_def f1_def n_def
  by (auto simp add: run_mutation_test_def loop_post_def first_activating_def
      activated_result_def verification_events_def split_beta Let_def write_file_def unlink_def
      apply_events_simps split: option.splits)

lemma find_upt_before:
  "find P [0..<n] = Some i \<Longrightarrow> (\<forall>j<i. \<not> P j) \<and> P i"
  by (auto simp add: find_Some_iff)

lemma run_mutations_step_inconclusive:
  assumes "first_activating c (generate_calls w) (nat (get_or 5 (max_attempts gconf))) = None"
  shows "run_mutations c gconf prompt_path test_cmd cache_dir (mu # mus) results w =
         run_mutations c gconf prompt_path test_cmd cache_dir mus
           (results @ [inconclusive_result mu (int (nat (get_or 5 (max_attempts gconf))))])
           (snd (run_mutation_test c mu gconf prompt_path test_cmd cache_dir w))"
  using run_mutation_test_inconclusive(1) [OF assms, of mu prompt_path test_cmd cache_dir]
  by (simp add: split_beta split: sum.splits prod.splits)

text \<open>
  Claim C7. With a budget of \<open>n = max_attempts\<close> (5 when the configuration gives none),
  \<open>run_mutation_test\<close> makes at most \<open>n\<close> attempts, and each attempt is one new call
  of the generator: the number of generator calls grows by the number of attempts, and
  the log shows, attempt by attempt, the new call followed by the probe on the artifacts
  this call returned. The attempts stop at the first one whose probe reports activated;
  the log then continues with the verification step on that attempt's artifacts. When no
  attempt activates, the result has \<open>activated = false\<close> and \<open>killed = false\<close>, no test
  run is logged, and \<open>run_mutations\<close> goes on with the next mutation.
\<close>

theorem run_mutation_test_attempts:
  fixes c mu gconf prompt_path test_cmd cache_dir w mus results
  defines "n \<equiv> nat (get_or 5 (max_attempts gconf))"
  defines "g0 \<equiv> generate_calls w"
  defines "R \<equiv> run_mutation_test c mu gconf prompt_path test_cmd cache_dir w"
  shows
  "attempts_made c g0 n \<le> n \<and>
   generate_calls (snd R) = g0 + attempts_made c g0 n \<and>
   (\<forall>r. fst R = Inr r \<longrightarrow>
      activation_attempts r = int (attempts_made c g0 n) \<and>
      activated r = (first_activating c g0 n \<noteq> None)) \<and>
   (case first_activating c g0 n of
      None \<Rightarrow>
        fst R = Inr (inconclusive_result mu (int n)) \<and>
        log (snd R) = log w @ attempts_log c cache_dir (m_id mu) g0 0 n \<and>
        run_mutations c gconf prompt_path test_cmd cache_dir (mu # mus) results w =
          run_mutations c gconf prompt_path test_cmd cache_dir mus
            (results @ [inconclusive_result mu (int n)]) (snd R)
    | Some i \<Rightarrow>
        i < n \<and> (\<forall>j<i. \<not> activates c (g0 + j)) \<and> activates c (g0 + i) \<and>
        (\<exists>m. generate_mutant_result c (g0 + i) = Some m \<and>
           log (snd R) =
             log w @ attempts_log c cache_dir (m_id mu) g0 0 (Suc i) @
             verification_events c test_cmd
               (apply_events (attempts_log c cache_dir (m_id mu) g0 0 (Suc i)) (fs w)) m))"
proof (cases "first_activating c g0 n")
  case None
  then have None': "first_activating c (generate_calls w) (nat (get_or 5 (max_attempts gconf))) = None"
    by (simp add: g0_def n_def)
  note inc = run_mutation_test_inconclusive [OF None', of mu prompt_path test_cmd cache_dir]
  note nxt = run_mutations_step_inconclusive
    [OF None', of prompt_path test_cmd cache_dir mu mus results]
  show ?thesis
    unfolding R_def n_def g0_def
    using inc(1-3) nxt
    by (simp add: None' attempts_made_def inconclusive_result_def)
next
  case (Some i)
  then have Some': "first_activating c (generate_calls w) (nat (get_or 5 (max_attempts gconf))) = Some i"
    by (simp add: g0_def n_def)
  from run_mutation_test_activated [OF Some', of mu prompt_path test_cmd cache_dir]
  obtain m where m: "generate_mutant_result c (generate_calls w + i) = Some m"
    and g: "generate_calls (snd (run_mutation_test c mu gconf prompt_path test_cmd cache_dir w)) =
              generate_calls w + i + 1"
    and l: "log (snd (run_mutation_test c mu gconf prompt_path test_cmd cache_dir w)) =
             log w @ attempts_log c cache_dir (m_id mu) (generate_calls w) 0 (Suc i) @
             verification_events c test_cmd
               (apply_events (attempts_log c cache_dir (m_id mu) (generate_calls w) 0 (Suc i))
                  (fs w)) m"
    and r: "fst (run_mutation_test c mu gconf prompt_path test_cmd cache_dir w) =
             (let f1 = apply_events
                         (attempts_log c cache_dir (m_id mu) (generate_calls w) 0 (Suc i)) (fs w);
                  t1 = mktemp c f1 ''.txt'';
                  f2 = f1(t1 \<mapsto> prompt m);
                  t2 = mktemp c f2 ''.yaml'';
                  f3 = f2(t2 \<mapsto> yaml_dump c (tool_descriptions m))
              in case run_tests_result c f3 t1 t2 of
                   None \<Rightarrow> Inl TestCommandError
                 | Some r \<Rightarrow> Inr (activated_result mu (int i + 1) r))"
    by (auto simp add: Let_def)
  have res: "\<forall>r. fst (run_mutation_test c mu gconf prompt_path test_cmd cache_dir w) = Inr r
               \<longrightarrow> activation_attempts r = int i + 1 \<and> activated r"
    unfolding r by (auto simp add: Let_def activated_result_def split: option.splits)
  from Some' have b: "i < nat (get_or 5 (max_attempts gconf))"
    by (rule first_activating_bound)
  from Some' have a: "(\<forall>j<i. \<not> activates c (generate_calls w + j)) \<and>
                      activates c (generate_calls w + i)"
    unfolding first_activating_def by (rule find_upt_before)
  show ?thesis
    unfolding R_def n_def g0_def
    using m g l res b a
    by (simp add: Some' attempts_made_def)
qed


theorem run_mutation_test_attempts_witness:
  "first_activating (demo_collaborators True) 0 5 = Some 2 \<and>
   generate_calls (snd (run_mutation_test (demo_collaborators True) demo_mutation demo_config
      ''prompt.txt'' ''pytest'' None demo_world)) = 3 \<and>
   first_activating (demo_collaborators False) 0 5 = None \<and>
   fst (run_mutation_test (demo_collaborators False) demo_mutation demo_config
      ''prompt.txt'' ''pytest'' None demo_world) = Inr (inconclusive_result demo_mutation 5)"
proof -
  have n: "nat (get_or 5 (max_attempts demo_config)) = 5"
    by (simp add: demo_config_def get_or_def)
  have g: "generate_calls demo_world = 0"
    by (simp add: demo_world_def)
  have a: "first_activating (demo_collaborators True) 0 5 = Some 2"
    by code_simp
  have b: "first_activating (demo_collaborators False) 0 5 = None"
    by code_simp
  from run_mutation_test_attempts [of "demo_collaborators True" demo_world demo_config
      demo_mutation "''prompt.txt''" "''pytest''" None]
       run_mutation_test_attempts [of "demo_collaborators False" demo_world demo_config
      demo_mutation "''prompt.txt''" "''pytest''" None]
  show ?thesis
    by (simp add: n g a b attempts_made_def)
qed


section \<open>The files during a mutation run\<close>

lemma apply_events_other:
  "(\<forall>e \<in> set es. e \<noteq> Unlink p \<and> (\<forall>content. e \<noteq> WriteFile p content)) \<Longrightarrow>
   apply_events es f p = f p"
proof (induction es arbitrary: f)
  case Nil
  show ?case by (simp add: apply_events_simps)
next
  case (Cons e es)
  then show ?case by (cases e) (auto simp add: apply_events_simps)
qed

lemma attempts_log_events:
  "e \<in> set (attempts_log c cache_dir mid g0 j k) \<Longrightarrow>
   (\<exists>i. e = Generate i) \<or> (\<exists>i m. e = Probe i m) \<or>
   (\<exists>d a content. cache_dir = Some d \<and> e = WriteFile (cache_file d mid a) content)"
  by (auto simp add: attempts_log_def attempt_events_def split: option.splits)

lemma attempts_log_keeps:
  assumes "\<And>d a. cache_dir = Some d \<Longrightarrow> cache_file d mid a \<noteq> p"
  shows "apply_events (attempts_log c cache_dir mid g0 j k) f p = f p"
proof (rule apply_events_other, intro ballI)
  fix e assume "e \<in> set (attempts_log c cache_dir mid g0 j k)"
  from attempts_log_events [OF this] assms
  show "e \<noteq> Unlink p \<and> (\<forall>content. e \<noteq> WriteFile p content)"
    by auto
qed

lemma finite_dom_apply_events:
  "finite (dom f) \<Longrightarrow> finite (dom (apply_events es f))"
proof (induction es arbitrary: f)
  case Nil
  then show ?case by (simp add: apply_events_simps)
next
  case (Cons e es)
  have "finite (dom (apply_event e f))"
    using Cons.prems by (cases e) simp_all
  from Cons.IH [OF this] show ?case by (simp add: apply_events_simps)
qed

text \<open>
  A temporary file gets a name that no file has. Finitely many files exist at any
  moment, so such a name can always be picked.
\<close>

lemma fresh_names_exist:
  "\<exists>c :: collaborators. \<forall>f suffix. finite (dom f) \<longrightarrow> f (mktemp c f suffix) = None"
proof -
  have new: "\<exists>p. f p = None" if "finite (dom f)" for f :: files
  proof -
    have "infinite (UNIV :: path set)"
      by (rule infinite_UNIV_listI)
    from ex_new_if_finite [OF this that] show ?thesis
      by (auto simp add: dom_def)
  qed
  let ?c = "\<lparr>generate_mutant_result = (\<lambda>k. None), probe_activated = (\<lambda>k m. None),
             run_tests_result = (\<lambda>f p q. None),
             mktemp = (\<lambda>f suffix. SOME p. f p = None),
             yaml_dump = (\<lambda>kv. [])\<rparr>"
  have "\<forall>f suffix. finite (dom f) \<longrightarrow> f (mktemp ?c f suffix) = None"
    using new by (auto intro: someI_ex)
  then show ?thesis by (rule exI)
qed

lemma verification_events_keep:
  assumes fresh: "\<And>f suffix. finite (dom f) \<Longrightarrow> f (mktemp c f suffix) = None"
    and fin: "finite (dom f)"
  shows "apply_events (verification_events c test_cmd f m) f = f"
proof -
  let ?t1 = "mktemp c f ''.txt''"
  let ?f2 = "f(?t1 \<mapsto> prompt m)"
  let ?t2 = "mktemp c ?f2 ''.yaml''"
  have 1: "f ?t1 = None" by (rule fresh [OF fin])
  have "finite (dom ?f2)" using fin by simp
  then have "?f2 ?t2 = None" by (rule fresh)
  then have 2: "?t2 \<noteq> ?t1" and 3: "f ?t2 = None"
    by (auto split: if_splits)
  from 1 2 3 show ?thesis
    by (auto simp add: verification_events_def Let_def apply_events_simps fun_eq_iff)
qed

text \<open>
  A run on finitely many files, with new names for the temporary files, leaves every
  path that is no cache file of the mutation as it was.
\<close>

lemma run_mutation_test_keeps_file:
  assumes fresh: "\<forall>f suffix. finite (dom f) \<longrightarrow> f (mktemp c f suffix) = None"
    and fin: "finite (dom (fs w))"
    and other: "\<forall>d a. cache_dir = Some d \<longrightarrow> cache_file d (m_id mu) a \<noteq> p"
  shows "fs (snd (run_mutation_test c mu gconf prompt_path test_cmd cache_dir w)) p = fs w p"
proof -
  have keep: "apply_events (attempts_log c cache_dir (m_id mu) g0 j k) f p = f p" for g0 j k f
    using other by (intro attempts_log_keeps) simp
  have ver: "apply_events (verification_events c test_cmd f m) f = f"
    if "finite (dom f)" for f m
    using fresh that by (intro verification_events_keep) simp_all
  have fin': "finite (dom (apply_events es (fs w)))" for es
    by (rule finite_dom_apply_events [OF fin])
  show ?thesis
  proof (cases "first_activating c (generate_calls w) (nat (get_or 5 (max_attempts gconf)))")
    case None
    from run_mutation_test_inconclusive(4) [OF None] keep
    show ?thesis by simp
  next
    case (Some i)
    from run_mutation_test_activated [OF Some, of mu prompt_path test_cmd cache_dir]
    show ?thesis by (auto simp add: ver fin' keep)
  qed
qed

text \<open>
  Claim C6. The lemma above is the claim wherever no cache file is the compiled prompt:
  the temporary files are new and removed again, also when the test command fails, and
  every file that is no cache file is afterwards what it was before. The cache write has no such guard. With
  the cache directory \<open>cache\<close>, the mutation \<open>m1\<close> and the compiled prompt at
  \<open>cache/m1_attempt1.txt\<close>, the first attempt saves the mutant over the compiled
  prompt, and the file holds the mutant's text after the run.
\<close>

theorem cache_write_replaces_prompt:
  "fs alias_world ''cache/m1_attempt1.txt'' = Some ''ORIGINAL PROMPT'' \<and>
   fs (snd (run_mutation_test alias_collaborators demo_mutation demo_config
              ''cache/m1_attempt1.txt'' ''pytest'' (Some ''cache'') alias_world))
      ''cache/m1_attempt1.txt'' = Some ''MUTANT PROMPT''"
  by code_simp

section \<open>The outcome of a test report\<close>

lemma remdups_snoc: "remdups (xs @ [m]) = filter (\<lambda>x. x \<noteq> m) (remdups xs) @ [m]"
  by (induction xs) auto

lemma first_seen_Cons:
  "rev (remdups (rev (m # ys))) = m # rev (remdups (rev (filter (\<lambda>x. x \<noteq> m) ys)))"
  by (simp add: remdups_snoc rev_filter remdups_filter)

lemma unique_loop_first_seen:
  "unique_loop ms (set u, u) =
     (set u \<union> set ms, u @ rev (remdups (rev (filter (\<lambda>m. m \<notin> set u) ms))))"
proof (induction ms arbitrary: u)
  case Nil
  show ?case by simp
next
  case (Cons m ms)
  show ?case
  proof (cases "m \<in> set u")
    case True
    then show ?thesis
      using Cons.IH [of u] by (simp add: insert_absorb)
  next
    case False
    have f: "filter (\<lambda>x. x \<notin> set (u @ [m])) ms =
             filter (\<lambda>x. x \<noteq> m) (filter (\<lambda>x. x \<notin> set u) ms)"
      by (induction ms) auto
    have c: "rev (remdups (rev (filter (\<lambda>x. x \<notin> set u) (m # ms)))) =
             m # rev (remdups (rev (filter (\<lambda>x. x \<noteq> m) (filter (\<lambda>x. x \<notin> set u) ms))))"
      using False first_seen_Cons [of m "filter (\<lambda>x. x \<notin> set u) ms"] by simp
    have "unique_loop (m # ms) (set u, u) = unique_loop ms (set (u @ [m]), u @ [m])"
      using False by simp
    also have "\<dots> = (set (u @ [m]) \<union> set ms,
                      (u @ [m]) @ rev (remdups (rev (filter (\<lambda>x. x \<notin> set (u @ [m])) ms))))"
      by (rule Cons.IH)
    finally show ?thesis
      unfolding f c by simp
  qed
qed

lemma extract_failing_test_ids_first_seen:
  "extract_failing_test_ids output = rev (remdups (rev (re_findall FAILED_PATTERN output)))"
  using unique_loop_first_seen [of "re_findall FAILED_PATTERN output" "[]"]
  by (simp add: extract_failing_test_ids_def)

text \<open>
  Claim C3, as the code has it. On the report of scenario A the failing ids are empty:
  an id is extracted only from a \<open>FAILED\<close> line whose id holds \<open>::\<close>, as pytest node
  ids do, and \<open>t1\<close> holds none. The counts are \<open>passed = 2\<close> and \<open>failed = 1\<close>. On the
  same report with the node id \<open>tests/test_a.py::t1\<close> in place of \<open>t1\<close> the failing ids
  are that one id, once, and the counts are the same.
\<close>

theorem scenario_A_outcome:
  "extract_failing_test_ids report_A = [] \<and>
   parse_pytest_summary report_A = (2, 1) \<and>
   extract_failing_test_ids report_A_node_id = [''tests/test_a.py::t1''] \<and>
   parse_pytest_summary report_A_node_id = (2, 1)"
  by code_simp

text \<open>
  Claim C3, as stated, does not hold: on the report of scenario A the failing ids are
  not \<open>[t1]\<close>.
\<close>

theorem scenario_A_counterexample:
  "\<not> (extract_failing_test_ids report_A = [''t1''] \<and> parse_pytest_summary report_A = (2, 1))"
  by code_simp

section \<open>The failure classifier\<close>

lemma process_test_buckets:
  "infrastructure_bugs (process_test st) =
     infrastructure_bugs st @
     fst (buckets (reported (if truthy (current_test st)
                             then [(the (current_test st), current_error_lines st)] else [])))"
  "expected_failures (process_test st) =
     expected_failures st @
     snd (buckets (reported (if truthy (current_test st)
                             then [(the (current_test st), current_error_lines st)] else [])))"
  by (auto simp add: process_test_def truthy_def buckets_def reported_def Let_def
      is_infrastructure_defect_def error_text_of_def describe_bug_def split: option.splits)

lemma process_test_pending:
  "current_test (process_test st) = current_test st"
  "current_error_lines (process_test st) = current_error_lines st"
  by (auto simp add: process_test_def Let_def split: option.splits)

lemma buckets_append:
  "fst (buckets (reported (bs @ cs))) = fst (buckets (reported bs)) @ fst (buckets (reported cs))"
  "snd (buckets (reported (bs @ cs))) = snd (buckets (reported bs)) @ snd (buckets (reported cs))"
  by (simp_all add: buckets_def reported_def)

lemma classify_loop_buckets:
  "infrastructure_bugs (process_test (classify_loop lines st)) =
     infrastructure_bugs st @ fst (buckets (reported (pending_blocks st lines))) \<and>
   expected_failures (process_test (classify_loop lines st)) =
     expected_failures st @ snd (buckets (reported (pending_blocks st lines)))"
proof (induction lines arbitrary: st)
  case Nil
  show ?case
    by (simp add: process_test_buckets pending_blocks_def)
next
  case (Cons line lines)
  show ?case
  proof (cases "is_failure_header line")
    case True
    let ?st1 = "(process_test st)\<lparr>current_test := Some (header_test line),
                                   current_error_lines := []\<rparr>"
    have p: "pending_blocks ?st1 lines =
             (if header_test line \<noteq> [] then [(header_test line, takeWhile (\<lambda>l. \<not> is_failure_header l) lines)] else [])
             @ failure_blocks lines"
      by (simp add: pending_blocks_def truthy_def)
    have r: "reported (pending_blocks ?st1 lines) = reported (failure_blocks (line # lines))"
      using True by (simp add: p reported_def)
    have q: "pending_blocks st (line # lines) =
             (if truthy (current_test st)
              then [(the (current_test st), current_error_lines st)] else [])
             @ failure_blocks (line # lines)"
      using True by (simp add: pending_blocks_def)
    show ?thesis
      using Cons.IH [of ?st1] True
      by (simp add: r q buckets_append process_test_buckets del: failure_blocks.simps)
  next
    case False
    show ?thesis
    proof (cases "truthy (current_test st)")
      case True
      let ?st1 = "st\<lparr>current_error_lines := current_error_lines st @ [line]\<rparr>"
      have "pending_blocks ?st1 lines = pending_blocks st (line # lines)"
        using True False by (simp add: pending_blocks_def)
      then show ?thesis
        using Cons.IH [of ?st1] True False by simp
    next
      case nt: False
      have "pending_blocks st lines = pending_blocks st (line # lines)"
        using nt False by (simp add: pending_blocks_def)
      then show ?thesis
        using Cons.IH [of st] nt False by simp
    qed
  qed
qed

lemma classify_test_failures_buckets:
  "classify_test_failures pytest_output = buckets (reported_blocks pytest_output)"
  using classify_loop_buckets [of "split_on (CHR 0x0A) pytest_output"
      "\<lparr>current_test = None, current_error_lines = [],
        infrastructure_bugs = [], expected_failures = []\<rparr>"]
  by (simp add: classify_test_failures_def Let_def pending_blocks_def truthy_def
      reported_blocks_def reported_def prod_eq_iff)

text \<open>
  Claim C4, as the code has it. The classifier reports the failure blocks that have a
  test name and at least one line after the header, and each reported block is in
  exactly one bucket: among the infrastructure defects, with its error text, when the
  error text holds one of the signatures, and among the behavioural mismatches
  otherwise. So the two buckets together have as many entries as there are reported
  blocks, and a report whose reported blocks all hold a signature has no behavioural
  mismatch.
\<close>

theorem classify_test_failures_partition:
  "classify_test_failures pytest_output =
     (map describe_bug (filter is_infrastructure_defect (reported_blocks pytest_output)),
      map fst (filter (\<lambda>b. \<not> is_infrastructure_defect b) (reported_blocks pytest_output))) \<and>
   length (fst (classify_test_failures pytest_output)) +
     length (snd (classify_test_failures pytest_output)) =
     length (reported_blocks pytest_output) \<and>
   ((\<forall>b \<in> set (reported_blocks pytest_output). is_infrastructure_defect b) \<longrightarrow>
      snd (classify_test_failures pytest_output) = [])"
proof -
  have "length (filter is_infrastructure_defect bs) +
        length (filter (\<lambda>b. \<not> is_infrastructure_defect b) bs) = length bs" for bs
    by (rule sum_length_filter_compl)
  moreover have "(\<forall>b \<in> set bs. is_infrastructure_defect b) \<Longrightarrow>
                 filter (\<lambda>b. \<not> is_infrastructure_defect b) bs = []" for bs
    by (simp add: filter_empty_conv)
  ultimately show ?thesis
    by (simp add: classify_test_failures_buckets buckets_def)
qed

theorem classify_test_failures_partition_witness:
  "list_all is_infrastructure_defect (reported_blocks report_name_error) \<and>
   classify_test_failures report_name_error =
     ([''tests/test_a.py::test_x:\<newline>E   NameError: name q is not defined\<newline>''], [])"
proof -
  have h: "\<forall>b \<in> set (reported_blocks report_name_error). is_infrastructure_defect b"
    by code_simp
  have v: "fst (classify_test_failures report_name_error) =
             [''tests/test_a.py::test_x:\<newline>E   NameError: name q is not defined\<newline>'']"
    by code_simp
  from classify_test_failures_partition [of report_name_error] h v
  show ?thesis by (simp add: prod_eq_iff list_all_iff)
qed

text \<open>
  Claim C4, as stated, does not hold. In a report that lists two failures on consecutive
  lines, as the short test summary of pytest does, the first failing id has no line
  after its header and is in neither bucket.
\<close>

theorem classify_test_failures_counterexample:
  "extract_failing_test_ids report_two_failures =
     [''tests/test_a.py::test_x'', ''tests/test_a.py::test_y''] \<and>
   classify_test_failures report_two_failures = ([], [''tests/test_a.py::test_y - assert 0''])"
  by code_simp

section \<open>The convergence loop\<close>

lemma count_events_simps:
  "count_events P [] = 0"
  "count_events P (e # es) = (if P e then 1 else 0) + count_events P es"
  "count_events P (es @ es') = count_events P es + count_events P es'"
  by (simp_all add: count_events_def)

lemma kinds:
  "is_outer_iteration (OuterIteration i)" "\<not> is_outer_iteration (InnerIteration i)"
  "\<not> is_outer_iteration (RunCmd c env)" "\<not> is_outer_iteration (Query m)"
  "\<not> is_outer_iteration (CopyFile p q)" "\<not> is_outer_iteration (UnlinkFile p)"
  "\<not> is_inner_iteration (OuterIteration i)" "is_inner_iteration (InnerIteration i)"
  "\<not> is_inner_iteration (RunCmd c env)" "\<not> is_inner_iteration (Query m)"
  "\<not> is_inner_iteration (CopyFile p q)" "\<not> is_inner_iteration (UnlinkFile p)"
  "\<not> is_run_cmd (OuterIteration i)" "\<not> is_run_cmd (InnerIteration i)"
  "is_run_cmd (RunCmd c env)" "\<not> is_run_cmd (Query m)"
  "\<not> is_run_cmd (CopyFile p q)" "\<not> is_run_cmd (UnlinkFile p)"
  by (simp_all add: is_outer_iteration_def is_inner_iteration_def is_run_cmd_def)

lemma inner_loop_log:
  "\<exists>new. clog (snd (inner_loop rc pp cp orig out mx is (ft, first) w)) = clog w @ new \<and>
         within_budget 0 (length is) (length is - (if first then 1 else 0))
           (3 * length is + 2) new"
proof (induction "is" arbitrary: ft first w)
  case Nil
  show ?case
    by (simp add: emit_def within_budget_def count_events_simps kinds)
next
  case (Cons i rest)
  let ?w0 = "emit (InnerIteration i) w"
  obtain code out1 w1 where step:
    "(if first then ((1, out), ?w0)
      else call_run_cmd rc (targeted_cmd ft) (Some cp) ?w0) = ((code, out1), w1)"
    by (metis prod.exhaust)
  have l1: "\<exists>pre. clog w1 = clog w @ pre \<and>
              within_budget 0 1 (if first then 0 else 1) 2 pre"
    using step
    by (auto simp add: emit_def call_run_cmd_def within_budget_def count_events_simps kinds
        split: if_splits)
  then obtain pre where pre: "clog w1 = clog w @ pre"
    and bpre: "within_budget 0 1 (if first then 0 else 1) 2 pre" by blast
  show ?case
  proof (cases "code = 0 \<or> i = mx")
    case True
    then have "\<exists>post. clog (snd (inner_loop rc pp cp orig out mx (i # rest) (ft, first) w)) =
                 clog w1 @ post \<and> within_budget 0 0 0 2 post"
      using step
      by (auto simp add: emit_def Let_def within_budget_def count_events_simps kinds)
    then obtain post where post:
        "clog (snd (inner_loop rc pp cp orig out mx (i # rest) (ft, first) w)) = clog w1 @ post"
      and bpost: "within_budget 0 0 0 2 post" by blast
    have "within_budget 0 (length (i # rest))
            (length (i # rest) - (if first then 1 else 0)) (3 * length (i # rest) + 2)
            (pre @ post)"
      using bpre bpost
      by (auto simp add: within_budget_def count_events_simps split: if_splits)
    with pre post show ?thesis by auto
  next
    case False
    let ?ft1 = "narrow_targets orig ft out1"
    let ?w2 = "emit (Query (InnerMessage i mx ?ft1 (inner_test_details out1))) w1"
    have eq: "inner_loop rc pp cp orig out mx (i # rest) (ft, first) w =
              inner_loop rc pp cp orig out mx rest (?ft1, False) ?w2"
      using step False by (simp add: Let_def)
    from Cons.IH [of ?ft1 False ?w2]
    obtain new where new:
        "clog (snd (inner_loop rc pp cp orig out mx rest (?ft1, False) ?w2)) = clog ?w2 @ new"
      and bnew: "within_budget 0 (length rest) (length rest) (3 * length rest + 2) new"
      by auto
    let ?all = "pre @ Query (InnerMessage i mx ?ft1 (inner_test_details out1)) # new"
    have "clog (snd (inner_loop rc pp cp orig out mx (i # rest) (ft, first) w)) = clog w @ ?all"
      unfolding eq new by (simp add: emit_def pre)
    moreover have "within_budget 0 (length (i # rest))
            (length (i # rest) - (if first then 1 else 0)) (3 * length (i # rest) + 2) ?all"
      using bpre bnew
      by (auto simp add: within_budget_def count_events_simps kinds split: if_splits)
    ultimately show ?thesis by blast
  qed
qed


lemma within_budget_append:
  "within_budget a b c d es \<Longrightarrow> within_budget a' b' c' d' es' \<Longrightarrow>
   within_budget (a + a') (b + b') (c + c') (d + d') (es @ es')"
  by (auto simp add: within_budget_def count_events_simps)

lemma within_budget_mono:
  "within_budget a b c d es \<Longrightarrow> a \<le> a' \<Longrightarrow> b \<le> b' \<Longrightarrow> c \<le> c' \<Longrightarrow> d \<le> d' \<Longrightarrow>
   within_budget a' b' c' d' es"
  by (auto simp add: within_budget_def)

lemma focused_inner_loop_log:
  "\<exists>new. clog (snd (focused_inner_loop rc pp ids out mx w)) =
           clog w @ CopyFile pp (with_name pp ''system_prompt_candidate.txt'') # new \<and>
         within_budget 0 (nat mx) (nat mx - 1) (3 * nat mx + 2) new"
proof -
  let ?cp = "with_name pp ''system_prompt_candidate.txt''"
  from inner_loop_log [of rc pp ?cp ids out mx "[1 .. mx]" ids True "emit (CopyFile pp ?cp) w"]
  obtain new where
      "clog (snd (inner_loop rc pp ?cp ids out mx [1 .. mx] (ids, True)
                    (emit (CopyFile pp ?cp) w))) = clog (emit (CopyFile pp ?cp) w) @ new"
    and "within_budget 0 (length [1 .. mx]) (length [1 .. mx] - 1) (3 * length [1 .. mx] + 2) new"
    by auto
  then show ?thesis
    by (auto simp add: focused_inner_loop_def Let_def emit_def)
qed

lemma outer_iteration_log:
  "\<exists>new. clog (snd (outer_iteration rc pp cmd mi thr mx init i w)) = clog w @ new \<and>
         within_budget 1 (nat mx) (1 + (nat mx - 1)) (3 * nat mx + 5) new"
proof -
  let ?w0 = "emit (OuterIteration i) w"
  obtain code out w1 where step:
    "(if i = 1 \<and> init \<noteq> None \<and> init \<noteq> Some []
      then ((1, the init), ?w0)
      else call_run_cmd rc cmd None ?w0) = ((code, out), w1)"
    by (metis prod.exhaust)
  have "\<exists>pre. clog w1 = clog w @ pre \<and> within_budget 1 0 1 2 pre"
    using step
    by (auto simp add: emit_def call_run_cmd_def within_budget_def count_events_simps kinds
        split: if_splits)
  then obtain pre where pre: "clog w1 = clog w @ pre" and bpre: "within_budget 1 0 1 2 pre"
    by blast
  let ?ids = "extract_failing_test_ids out"
  show ?thesis
  proof (cases "code \<noteq> 0 \<and> 0 < length ?ids \<and> int (length ?ids) < thr")
    case True
    from focused_inner_loop_log [of rc pp ?ids out mx w1]
    obtain new where new: "clog (snd (focused_inner_loop rc pp ?ids out mx w1)) =
           clog w1 @ CopyFile pp (with_name pp ''system_prompt_candidate.txt'') # new"
      and bnew: "within_budget 0 (nat mx) (nat mx - 1) (3 * nat mx + 2) new"
      by blast
    let ?post = "CopyFile pp (with_name pp ''system_prompt_candidate.txt'') # new"
    have bpost: "within_budget 0 (nat mx) (nat mx - 1) (3 * nat mx + 3) ?post"
      using bnew by (auto simp add: within_budget_def count_events_simps kinds)
    have "clog (snd (outer_iteration rc pp cmd mi thr mx init i w)) = clog w @ pre @ ?post"
      using step True new pre
      by (simp add: outer_iteration_def Let_def split_beta)
    moreover have "within_budget 1 (nat mx) (1 + (nat mx - 1)) (3 * nat mx + 5) (pre @ ?post)"
      using within_budget_append [OF bpre bpost] by (simp add: add.commute)
    ultimately show ?thesis by blast
  next
    case False
    then have "\<exists>post. clog (snd (outer_iteration rc pp cmd mi thr mx init i w)) = clog w1 @ post \<and>
                 within_budget 0 0 0 1 post"
      using step
      by (auto simp add: outer_iteration_def Let_def emit_def within_budget_def
          count_events_simps kinds)
    then obtain post where
        post: "clog (snd (outer_iteration rc pp cmd mi thr mx init i w)) = clog w1 @ post"
      and bpost: "within_budget 0 0 0 1 post" by blast
    have "within_budget 1 (nat mx) (1 + (nat mx - 1)) (3 * nat mx + 5) (pre @ post)"
      using within_budget_append [OF bpre bpost]
      by (rule within_budget_mono) simp_all
    with pre post show ?thesis by auto
  qed
qed

lemma outer_loop_log:
  "\<exists>new. clog (snd (outer_loop rc pp cmd mi thr mx init is w)) = clog w @ new \<and>
         within_budget (length is) (length is * nat mx) (length is * (1 + (nat mx - 1)))
           (length is * (3 * nat mx + 5)) new"
proof (induction "is" arbitrary: w)
  case Nil
  show ?case
    by (simp add: within_budget_def count_events_simps)
next
  case (Cons i rest)
  obtain r w1 where step: "outer_iteration rc pp cmd mi thr mx init i w = (r, w1)"
    by (metis prod.exhaust)
  from outer_iteration_log [of rc pp cmd mi thr mx init i w] step
  obtain pre where pre: "clog w1 = clog w @ pre"
    and bpre: "within_budget 1 (nat mx) (1 + (nat mx - 1)) (3 * nat mx + 5) pre"
    by auto
  show ?case
  proof (cases r)
    case (Return code)
    have "clog (snd (outer_loop rc pp cmd mi thr mx init (i # rest) w)) = clog w @ pre"
      using step Return pre by simp
    moreover have "within_budget (length (i # rest)) (length (i # rest) * nat mx)
        (length (i # rest) * (1 + (nat mx - 1))) (length (i # rest) * (3 * nat mx + 5)) pre"
      using bpre by (rule within_budget_mono) simp_all
    ultimately show ?thesis by blast
  next
    case NextIteration
    from Cons.IH [of w1]
    obtain new where new: "clog (snd (outer_loop rc pp cmd mi thr mx init rest w1)) = clog w1 @ new"
      and bnew: "within_budget (length rest) (length rest * nat mx)
                  (length rest * (1 + (nat mx - 1))) (length rest * (3 * nat mx + 5)) new"
      by blast
    have "clog (snd (outer_loop rc pp cmd mi thr mx init (i # rest) w)) = clog w @ pre @ new"
      using step NextIteration pre new by simp
    moreover have "within_budget (length (i # rest)) (length (i # rest) * nat mx)
        (length (i # rest) * (1 + (nat mx - 1))) (length (i # rest) * (3 * nat mx + 5))
        (pre @ new)"
      using within_budget_append [OF bpre bnew]
      by (rule within_budget_mono) simp_all
    ultimately show ?thesis by blast
  qed
qed

text \<open>
  Claim C9. Every session ends, and the log it leaves is bounded by the budgets alone,
  whatever the test commands answer: at most \<open>max_iters\<close> outer iterations, at most
  \<open>max_inner_iters\<close> inner iterations for each entry into the inner loop, and a bounded
  number of test commands and of events in all. With the defaults the bounds are 6 outer
  iterations and 8 inner iterations for each entry. A budget below zero counts as zero.
\<close>

theorem convergence_loop_bounded:
  "(\<exists>new. clog (snd (compile_loop rc prompt_exists prompt_path test_cmd max_iters
                        inner_loop_threshold max_inner_iters initial_results_content w)) =
            clog w @ new \<and>
          within_budget (nat max_iters) (nat max_iters * nat max_inner_iters)
            (nat max_iters * (1 + (nat max_inner_iters - 1)))
            (nat max_iters * (3 * nat max_inner_iters + 5)) new) \<and>
   (\<exists>new. clog (snd (focused_inner_loop rc prompt_path failing_tests outer_loop_output
                        max_inner_iters w)) = clog w @ new \<and>
          within_budget 0 (nat max_inner_iters) (nat max_inner_iters - 1)
            (3 * nat max_inner_iters + 3) new) \<and>
   (\<exists>new. clog (snd (compile_loop rc prompt_exists prompt_path test_cmd default_max_iters
                        default_inner_loop_threshold default_max_inner_iters
                        initial_results_content w)) = clog w @ new \<and>
          within_budget 6 48 48 174 new)"
proof (intro conjI)
  have general: "\<exists>new. clog (snd (compile_loop rc prompt_exists prompt_path test_cmd mi thr mx
                        initial_results_content w)) = clog w @ new \<and>
          within_budget (nat mi) (nat mi * nat mx) (nat mi * (1 + (nat mx - 1)))
            (nat mi * (3 * nat mx + 5)) new" for mi thr mx
  proof (cases prompt_exists)
    case False
    then show ?thesis
      by (simp add: compile_loop_def within_budget_def count_events_simps)
  next
    case True
    from outer_loop_log [of rc prompt_path test_cmd mi thr mx initial_results_content
        "[1 .. mi]" w]
    show ?thesis
      using True by (simp add: compile_loop_def split_beta)
  qed
  from general [of default_max_iters default_inner_loop_threshold default_max_inner_iters]
  show "\<exists>new. clog (snd (compile_loop rc prompt_exists prompt_path test_cmd default_max_iters
                        default_inner_loop_threshold default_max_inner_iters
                        initial_results_content w)) = clog w @ new \<and>
          within_budget 6 48 48 174 new"
    by (simp add: default_max_iters_def default_max_inner_iters_def)
  show "\<exists>new. clog (snd (compile_loop rc prompt_exists prompt_path test_cmd max_iters
                        inner_loop_threshold max_inner_iters initial_results_content w)) =
            clog w @ new \<and>
          within_budget (nat max_iters) (nat max_iters * nat max_inner_iters)
            (nat max_iters * (1 + (nat max_inner_iters - 1)))
            (nat max_iters * (3 * nat max_inner_iters + 5)) new"
    by (rule general)
  from focused_inner_loop_log [of rc prompt_path failing_tests outer_loop_output
      max_inner_iters w]
  obtain new where new: "clog (snd (focused_inner_loop rc prompt_path failing_tests
        outer_loop_output max_inner_iters w)) =
        clog w @ CopyFile prompt_path (with_name prompt_path ''system_prompt_candidate.txt'') # new"
    and b: "within_budget 0 (nat max_inner_iters) (nat max_inner_iters - 1)
              (3 * nat max_inner_iters + 2) new"
    by blast
  have "within_budget 0 (nat max_inner_iters) (nat max_inner_iters - 1)
          (3 * nat max_inner_iters + 3)
          (CopyFile prompt_path (with_name prompt_path ''system_prompt_candidate.txt'') # new)"
    using b by (auto simp add: within_budget_def count_events_simps kinds)
  with new show "\<exists>new. clog (snd (focused_inner_loop rc prompt_path failing_tests
        outer_loop_output max_inner_iters w)) = clog w @ new \<and>
          within_budget 0 (nat max_inner_iters) (nat max_inner_iters - 1)
            (3 * nat max_inner_iters + 3) new"
    by blast
qed






end
